theory Spec2Isabelle
  imports Main "HOL-Library.Word" "HOL-Library.AList"
begin

unbundle bit_operations_syntax

section \<open>Common definitions (common.hpp)\<close>

text \<open>
  Bytes and fixed-width integers are machine words. Values of type \<open>size_t\<close> (offsets and
  lengths inside one datagram) are natural numbers: every sum the code forms stays far below
  \<open>2 ^ 64\<close>. A pointer into the packet is its offset from the start of the packet; a buffer
  is the list of the bytes it holds.
\<close>

type_synonym u8 = "8 word"
type_synonym u16 = "16 word"
type_synonym u32 = "32 word"

datatype Error =
    Success
  | PacketTooShort
  | InvalidHeader
  | TruncatedMessage
  | PointerLoop
  | InvalidLabel
  | BufferTooSmall
  | NotQuery

text \<open>The integer value of each enumerator, as \<open>static_cast<int>\<close> yields it.\<close>

fun Error_int :: "Error \<Rightarrow> int" where
  "Error_int Success = 0"
| "Error_int PacketTooShort = -1"
| "Error_int InvalidHeader = -2"
| "Error_int TruncatedMessage = -3"
| "Error_int PointerLoop = -4"
| "Error_int InvalidLabel = -5"
| "Error_int BufferTooSmall = -6"
| "Error_int NotQuery = -7"

text \<open>
  The host is little-endian (the branch of \<open>ntohs\<close> and \<open>ntohl\<close> that swaps bytes):
  \<open>load16\<close> and \<open>store16\<close> are the reads and writes of a \<open>uint16_t\<close> through a cast pointer.
\<close>

definition ntohs :: "u16 \<Rightarrow> u16" where
  "ntohs n = push_bit 8 n OR drop_bit 8 n"

definition htons :: "u16 \<Rightarrow> u16" where
  "htons h = ntohs h"

definition ntohl :: "u32 \<Rightarrow> u32" where
  "ntohl n = push_bit 24 n OR push_bit 8 (n AND 0xFF00) OR (drop_bit 8 n AND 0xFF00) OR drop_bit 24 n"

definition htonl :: "u32 \<Rightarrow> u32" where
  "htonl h = ntohl h"

definition load16 :: "u8 list \<Rightarrow> nat \<Rightarrow> u16" where
  "load16 data off = ucast (data ! off) OR push_bit 8 (ucast (data ! (off + 1)))"

definition store16 :: "u8 list \<Rightarrow> nat \<Rightarrow> u16 \<Rightarrow> u8 list" where
  "store16 buf off v = buf[off := ucast v, off + 1 := ucast (drop_bit 8 v)]"

definition store32 :: "u8 list \<Rightarrow> nat \<Rightarrow> u32 \<Rightarrow> u8 list" where
  "store32 buf off v =
     buf[off := ucast v, off + 1 := ucast (drop_bit 8 v),
         off + 2 := ucast (drop_bit 16 v), off + 3 := ucast (drop_bit 24 v)]"

text \<open>
  \<open>memcpy dst off src n\<close> is \<open>std::memcpy(dst + off, src, n)\<close>: the \<open>n\<close> bytes of \<open>dst\<close> from
  \<open>off\<close> on become the first \<open>n\<close> bytes of \<open>src\<close>.
\<close>

definition memcpy :: "u8 list \<Rightarrow> nat \<Rightarrow> u8 list \<Rightarrow> nat \<Rightarrow> u8 list" where
  "memcpy dst off src n = take off dst @ take n src @ drop (off + n) dst"

definition dns_type_A :: u16 where "dns_type_A = 1"
definition dns_type_AAAA :: u16 where "dns_type_AAAA = 28"
definition dns_class_IN :: u16 where "dns_class_IN = 1"

definition MAX_DOMAIN_LENGTH :: nat where "MAX_DOMAIN_LENGTH = 255"
definition MAX_LABEL_LENGTH :: nat where "MAX_LABEL_LENGTH = 63"
definition MAX_LABELS :: nat where "MAX_LABELS = 128"
definition DNS_HEADER_SIZE :: nat where "DNS_HEADER_SIZE = 12"
definition MIN_DNS_QUERY_SIZE :: nat where "MIN_DNS_QUERY_SIZE = DNS_HEADER_SIZE + 5"

section \<open>The parser (dns_parser.hpp, dns_parser.cpp)\<close>

text \<open>
  \<open>DNSHeader\<close> holds the six header words as the host reads them from memory (network byte
  order, not yet swapped). The field \<open>header\<close> of a parse result points at the packet, which
  the caller keeps unchanged while the view lives; the model stores the header the pointer
  designates. The fields \<open>id\<close> and \<open>flags\<close> of the header are \<open>hdr_id\<close> and \<open>hdr_flags\<close>, those of
  the parse result \<open>res_id\<close> and \<open>res_flags\<close>.
\<close>

record DNSHeader =
  hdr_id :: u16
  hdr_flags :: u16
  qd_count :: u16
  an_count :: u16
  ns_count :: u16
  ar_count :: u16

definition header_at :: "u8 list \<Rightarrow> DNSHeader" where
  "header_at data =
     \<lparr>hdr_id = load16 data 0, hdr_flags = load16 data 2, qd_count = load16 data 4,
      an_count = load16 data 6, ns_count = load16 data 8, ar_count = load16 data 10\<rparr>"

definition getId :: "DNSHeader \<Rightarrow> u16" where
  "getId h = ntohs (hdr_id h)"

definition getFlags :: "DNSHeader \<Rightarrow> u16" where
  "getFlags h = ntohs (hdr_flags h)"

definition getQDCount :: "DNSHeader \<Rightarrow> u16" where
  "getQDCount h = ntohs (qd_count h)"

definition getANCount :: "DNSHeader \<Rightarrow> u16" where
  "getANCount h = ntohs (an_count h)"

definition isQuery :: "DNSHeader \<Rightarrow> bool" where
  "isQuery h = (getFlags h AND 0x8000 = 0)"

record DNSQuestion =
  name_start :: nat
  name_offset :: nat
  name_wire_len :: nat
  qtype :: u16
  qclass :: u16

record DNSParseResult =
  header :: DNSHeader
  question :: DNSQuestion
  total_consumed :: nat
  question_end :: nat
  res_id :: u16
  res_flags :: u16
  is_query :: bool

text \<open>
  The loop of \<open>DNSParser::parseName\<close>. The last argument holds the current values of the
  out-parameters \<open>*end_offset\<close> and \<open>*wire_len\<close>, which only the success path writes.
\<close>

function parseName_loop ::
  "u8 list \<Rightarrow> nat \<Rightarrow> nat \<Rightarrow> nat \<Rightarrow> bool \<Rightarrow> nat \<Rightarrow> nat \<Rightarrow> nat \<times> nat \<Rightarrow> Error \<times> nat \<times> nat"
where
  "parseName_loop data len offset original_offset jumped jump_count total_len outs =
    (if jump_count < MAX_LABELS then
       if offset \<ge> len then (TruncatedMessage, outs)
       else
         let label_len = data ! offset in
         if label_len = 0 then
           (Success, (if \<not> jumped then offset + 1 else original_offset + 2), total_len + 1)
         else if label_len AND 0xC0 = 0xC0 then
           if offset + 1 \<ge> len then (TruncatedMessage, outs)
           else
             let ptr = unat (push_bit 8 (ucast (label_len AND 0x3F) :: u16)
                             OR ucast (data ! (offset + 1)))
             in if ptr \<ge> len then (PointerLoop, outs)
                else parseName_loop data len ptr
                       (if \<not> jumped then offset else original_offset) True
                       (jump_count + 1) total_len outs
         else if unat label_len > MAX_LABEL_LENGTH then (InvalidLabel, outs)
         else if offset + 1 + unat label_len > len then (TruncatedMessage, outs)
         else parseName_loop data len (offset + 1 + unat label_len) original_offset jumped
                jump_count (total_len + (1 + unat label_len)) outs
     else (PointerLoop, outs))"
  by pat_completeness auto
termination
  by (relation "measures [\<lambda>(data, len, offset, oo, j, jc, tl, outs). MAX_LABELS - jc,
                          \<lambda>(data, len, offset, oo, j, jc, tl, outs). len - offset]")
     (auto simp: MAX_LABELS_def)

declare parseName_loop.simps [simp del]

definition parseName :: "u8 list \<Rightarrow> nat \<Rightarrow> nat \<Rightarrow> nat \<times> nat \<Rightarrow> Error \<times> nat \<times> nat" where
  "parseName data len offset outs = parseName_loop data len offset offset False 0 0 outs"

text \<open>
  \<open>DNSParser::parse\<close>. A null pointer is \<open>None\<close>; the result is the returned error and the
  contents of \<open>*result\<close> after the call.
\<close>

fun parse ::
  "u8 list option \<Rightarrow> nat \<Rightarrow> DNSParseResult option \<Rightarrow> Error \<times> DNSParseResult option"
where
  "parse (Some data) len (Some result) =
    (if len < MIN_DNS_QUERY_SIZE then (PacketTooShort, Some result)
     else
       let result1 = result\<lparr>header := header_at data\<rparr>;
           result2 = result1\<lparr>res_id := getId (header result1)\<rparr>;
           result3 = result2\<lparr>res_flags := getFlags (header result2)\<rparr>;
           result4 = result3\<lparr>is_query := isQuery (header result3)\<rparr>
       in if getQDCount (header result4) = 0 then (InvalidHeader, Some result4)
          else
            let offset = DNS_HEADER_SIZE;
                result5 = result4\<lparr>question := (question result4)\<lparr>name_start := offset\<rparr>\<rparr>;
                result6 = result5\<lparr>question := (question result5)\<lparr>name_offset := offset\<rparr>\<rparr>;
                (err, name_end, wire_len) = parseName data len offset (0, 0)
            in if err \<noteq> Success then (err, Some result6)
               else
                 let result7 = result6\<lparr>question := (question result6)\<lparr>name_wire_len := wire_len\<rparr>\<rparr>
                 in if name_end + 4 > len then (TruncatedMessage, Some result7)
                    else
                      (Success,
                       Some (result7\<lparr>question := (question result7)
                                       \<lparr>qtype := ntohs (load16 data name_end),
                                        qclass := ntohs (load16 data (name_end + 2))\<rparr>,
                                     total_consumed := name_end + 4,
                                     question_end := name_end + 4\<rparr>)))"
| "parse _ len result = (InvalidHeader, result)"


text \<open>\<open>std::tolower\<close> on a byte, in the C locale.\<close>

definition tolower_u8 :: "u8 \<Rightarrow> u8" where
  "tolower_u8 c = (if 0x41 \<le> c \<and> c \<le> 0x5A then c + 0x20 else c)"

text \<open>
  \<open>DNSParser::decodeName\<close>. The result is the returned error, the contents of \<open>out_buf\<close> and
  the value of \<open>*out_len\<close> after the call.
\<close>

function decodeName_loop ::
  "u8 list \<Rightarrow> nat \<Rightarrow> nat \<Rightarrow> nat \<Rightarrow> nat \<Rightarrow> bool \<Rightarrow> u8 list \<Rightarrow> nat \<Rightarrow> nat
     \<Rightarrow> Error \<times> u8 list \<times> nat"
where
  "decodeName_loop packet packet_len offset buf_pos jump_count first_label out_buf buf_size out_len =
    (if jump_count < MAX_LABELS then
       if offset \<ge> packet_len then (TruncatedMessage, out_buf, out_len)
       else
         let label_len = packet ! offset in
         if label_len = 0 then
           (Success,
            (if buf_pos > 0 \<and> buf_pos < buf_size then out_buf[buf_pos := 0] else out_buf),
            buf_pos)
         else if label_len AND 0xC0 = 0xC0 then
           if offset + 1 \<ge> packet_len then (TruncatedMessage, out_buf, out_len)
           else
             decodeName_loop packet packet_len
               (unat (push_bit 8 (ucast (label_len AND 0x3F) :: u16)
                      OR ucast (packet ! (offset + 1))))
               buf_pos (jump_count + 1) first_label out_buf buf_size out_len
         else if \<not> first_label \<and> buf_pos \<ge> buf_size then (BufferTooSmall, out_buf, out_len)
         else
           let out_buf1 = (if \<not> first_label then out_buf[buf_pos := 0x2E] else out_buf);
               buf_pos1 = (if \<not> first_label then buf_pos + 1 else buf_pos)
           in if buf_pos1 + unat label_len > buf_size then (BufferTooSmall, out_buf1, out_len)
              else
                let offset1 = offset + 1;
                    out_buf2 = fold (\<lambda>i buf. buf[buf_pos1 + i := tolower_u8 (packet ! (offset1 + i))])
                                 [0..<unat label_len] out_buf1
                in decodeName_loop packet packet_len (offset1 + unat label_len)
                     (buf_pos1 + unat label_len) jump_count False out_buf2 buf_size out_len
     else (PointerLoop, out_buf, out_len))"
  by pat_completeness auto
termination
  by (relation "measures [\<lambda>(p, len, offset, bp, jc, fl, ob, bs, ol). MAX_LABELS - jc,
                          \<lambda>(p, len, offset, bp, jc, fl, ob, bs, ol). len - offset]")
     (auto simp: MAX_LABELS_def)

declare decodeName_loop.simps [simp del]

definition decodeName ::
  "u8 list \<Rightarrow> nat \<Rightarrow> nat \<Rightarrow> u8 list \<Rightarrow> nat \<Rightarrow> nat \<Rightarrow> Error \<times> u8 list \<times> nat"
where
  "decodeName packet packet_len name_off out_buf buf_size out_len =
     decodeName_loop packet packet_len name_off 0 0 True out_buf buf_size out_len"

section \<open>The response builders (dns_parser.cpp)\<close>

text \<open>
  A builder returns the length it reports and the contents of the response buffer after the
  call. The header fields of the response are written through a \<open>DNSHeader\<close> pointer to the
  buffer: \<open>flags\<close> at byte 2, \<open>an_count\<close> at byte 6, \<open>ns_count\<close> at byte 8, \<open>ar_count\<close> at
  byte 10.
\<close>

definition buildNXDomain ::
  "u8 list \<Rightarrow> nat \<Rightarrow> DNSParseResult \<Rightarrow> u8 list \<Rightarrow> nat \<Rightarrow> nat \<times> u8 list"
where
  "buildNXDomain query query_len parsed response response_buf_size =
    (if response_buf_size < total_consumed parsed then (0, response)
     else
       let response = memcpy response 0 query (total_consumed parsed);
           flags = getFlags (header parsed);
           flags = flags OR 0x8000;
           flags = flags OR 0x0080;
           flags = flags AND 0xFFF0;
           flags = flags OR 0x0003;
           response = store16 response 2 (htons flags);
           response = store16 response 6 0;
           response = store16 response 8 0;
           response = store16 response 10 0
       in (total_consumed parsed, response))"

definition buildAResponse ::
  "u8 list \<Rightarrow> nat \<Rightarrow> DNSParseResult \<Rightarrow> u32 \<Rightarrow> u32 \<Rightarrow> u8 list \<Rightarrow> nat \<Rightarrow> nat \<times> u8 list"
where
  "buildAResponse query query_len parsed ip ttl response response_buf_size =
    (let answer_size = 16;
         total_size = total_consumed parsed + answer_size
     in if response_buf_size < total_size then (0, response)
        else
          let response = memcpy response 0 query (total_consumed parsed);
              flags = getFlags (header parsed);
              flags = flags OR 0x8000;
              flags = flags OR 0x0400;
              flags = flags OR 0x0080;
              flags = flags AND 0xFFF0;
              response = store16 response 2 (htons flags);
              response = store16 response 6 (htons 1);
              offset = total_consumed parsed;
              response = response[offset := 0xC0];
              offset = offset + 1;
              response = response[offset := of_nat DNS_HEADER_SIZE];
              offset = offset + 1;
              response = store16 response offset (htons dns_type_A);
              offset = offset + 2;
              response = store16 response offset (htons dns_class_IN);
              offset = offset + 2;
              response = store32 response offset (htonl ttl);
              offset = offset + 4;
              response = store16 response offset (htons 4);
              offset = offset + 2;
              response = store32 response offset ip;
              offset = offset + 4
          in (offset, response))"

definition buildAAAAResponse ::
  "u8 list \<Rightarrow> nat \<Rightarrow> DNSParseResult \<Rightarrow> u8 list \<Rightarrow> u32 \<Rightarrow> u8 list \<Rightarrow> nat \<Rightarrow> nat \<times> u8 list"
where
  "buildAAAAResponse query query_len parsed ipv6 ttl response response_buf_size =
    (let answer_size = 28;
         total_size = total_consumed parsed + answer_size
     in if response_buf_size < total_size then (0, response)
        else
          let response = memcpy response 0 query (total_consumed parsed);
              flags = getFlags (header parsed);
              flags = flags OR 0x8000;
              flags = flags OR 0x0400;
              flags = flags OR 0x0080;
              flags = flags AND 0xFFF0;
              response = store16 response 2 (htons flags);
              response = store16 response 6 (htons 1);
              offset = total_consumed parsed;
              response = response[offset := 0xC0];
              offset = offset + 1;
              response = response[offset := of_nat DNS_HEADER_SIZE];
              offset = offset + 1;
              response = store16 response offset (htons dns_type_AAAA);
              offset = offset + 2;
              response = store16 response offset (htons dns_class_IN);
              offset = offset + 2;
              response = store32 response offset (htonl ttl);
              offset = offset + 4;
              response = store16 response offset (htons 16);
              offset = offset + 2;
              response = memcpy response offset ipv6 16;
              offset = offset + 16
          in (offset, response))"

definition buildRefused ::
  "u8 list \<Rightarrow> nat \<Rightarrow> DNSParseResult \<Rightarrow> u8 list \<Rightarrow> nat \<Rightarrow> nat \<times> u8 list"
where
  "buildRefused query query_len parsed response response_buf_size =
    (if response_buf_size < total_consumed parsed then (0, response)
     else
       let response = memcpy response 0 query (total_consumed parsed);
           flags = getFlags (header parsed);
           flags = flags OR 0x8000;
           flags = flags OR 0x0080;
           flags = flags AND 0xFFF0;
           flags = flags OR 0x0005;
           response = store16 response 2 (htons flags);
           response = store16 response 6 0;
           response = store16 response 8 0;
           response = store16 response 10 0
       in (total_consumed parsed, response))"

section \<open>The facade (cgo_bridge.h, cgo_bridge.cpp)\<close>

definition XDP_DNS_OK :: int where "XDP_DNS_OK = 0"
definition XDP_DNS_ERR_INVALID_PARAM :: int where "XDP_DNS_ERR_INVALID_PARAM = -1"
definition XDP_DNS_ERR_PARSE_FAILED :: int where "XDP_DNS_ERR_PARSE_FAILED = -2"
definition XDP_DNS_ERR_BUFFER_TOO_SMALL :: int where "XDP_DNS_ERR_BUFFER_TOO_SMALL = -3"
definition XDP_DNS_ERR_NOT_INITIALIZED :: int where "XDP_DNS_ERR_NOT_INITIALIZED = -4"
definition XDP_DNS_ERR_NOT_DNS_QUERY :: int where "XDP_DNS_ERR_NOT_DNS_QUERY = -5"

record XDPDNSParseResult =
  x_id :: u16
  x_flags :: u16
  x_qtype :: u16
  x_qclass :: u16
  x_name_offset :: nat
  x_question_end :: nat
  x_domain :: "u8 list"
  x_domain_len :: nat

text \<open>The global counters \<open>xdp_dns_parse\<close> updates, as 64-bit words.\<close>

record Counters =
  g_packets_received :: "64 word"
  g_packets_parsed :: "64 word"
  g_parse_errors :: "64 word"

text \<open>
  \<open>xdp_dns_parse\<close>. The local \<open>parsed\<close> is not initialised by the source: its contents before
  the call of \<open>parse\<close> are the argument \<open>parsed0\<close>. \<open>sizeof(result->domain)\<close> is 256. The result
  is the returned status, the contents of \<open>*result\<close> and the counters after the call.
\<close>

fun xdp_dns_parse ::
  "Counters \<Rightarrow> DNSParseResult \<Rightarrow> u8 list option \<Rightarrow> nat \<Rightarrow> XDPDNSParseResult option
     \<Rightarrow> int \<times> XDPDNSParseResult option \<times> Counters"
where
  "xdp_dns_parse g parsed0 (Some packet_data) packet_len (Some result) =
    (if packet_len < 12 then (XDP_DNS_ERR_INVALID_PARAM, Some result, g)
     else
       let g = g\<lparr>g_packets_received := g_packets_received g + 1\<rparr>;
           (err, parsed_ptr) = parse (Some packet_data) packet_len (Some parsed0)
       in if err \<noteq> Success then
            (Error_int err, Some result, g\<lparr>g_parse_errors := g_parse_errors g + 1\<rparr>)
          else
            let parsed = the parsed_ptr
            in if \<not> is_query parsed then (XDP_DNS_ERR_NOT_DNS_QUERY, Some result, g)
               else
                 let result = result\<lparr>x_id := res_id parsed\<rparr>;
                     result = result\<lparr>x_flags := res_flags parsed\<rparr>;
                     result = result\<lparr>x_qtype := qtype (question parsed)\<rparr>;
                     result = result\<lparr>x_qclass := qclass (question parsed)\<rparr>;
                     result = result\<lparr>x_name_offset := name_offset (question parsed)\<rparr>;
                     result = result\<lparr>x_question_end := question_end parsed\<rparr>;
                     (err, out_buf, out_len) =
                        decodeName packet_data packet_len (name_offset (question parsed))
                          (x_domain result) 256 0;
                     result = result\<lparr>x_domain := out_buf\<rparr>
                 in if err \<noteq> Success then
                      (Error_int err, Some result, g\<lparr>g_parse_errors := g_parse_errors g + 1\<rparr>)
                    else
                      (XDP_DNS_OK, Some (result\<lparr>x_domain_len := out_len\<rparr>),
                       g\<lparr>g_packets_parsed := g_packets_parsed g + 1\<rparr>))"
| "xdp_dns_parse g parsed0 packet_data packet_len result =
     (XDP_DNS_ERR_INVALID_PARAM, result, g)"

section \<open>The domain trie (domain_trie.hpp, domain_trie.cpp)\<close>

datatype Action = Allow | Block | Redirect | Log

record Rule =
  rule_num :: u32
  action :: Action
  redirect_ip :: u32
  ttl :: u32
  rule_id :: string

text \<open>
  A node maps labels to children (the \<open>unordered_map\<close>, as an association list read with
  \<open>map_of\<close> and written with \<open>AList.update\<close>) and holds two rule pointers, \<open>None\<close> when null.
  A rule pointer is modelled by the rule it points to. The operations are modelled as they
  run under the lock of the trie, one at a time. The members \<open>root_\<close> and \<open>rule_count_\<close> are
  the fields \<open>root\<close> and \<open>rule_count\<close>; \<open>insert\<close>, \<open>match\<close> and \<open>size\<close> are \<open>insert_trie\<close>,
  \<open>match_trie\<close> and \<open>size_trie\<close>; the field \<open>id\<close> of a rule is \<open>rule_num\<close>.
\<close>

datatype TrieNode =
  TrieNode (children: "(string \<times> TrieNode) list")
           (exact_rule: "Rule option") (wildcard_rule: "Rule option")

record DomainTrie =
  root :: TrieNode
  rule_count :: nat

text \<open>The state the constructor \<open>DomainTrie::DomainTrie\<close> builds.\<close>

definition DomainTrie_new :: DomainTrie where
  "DomainTrie_new = \<lparr>root = TrieNode [] None None, rule_count = 0\<rparr>"

text \<open>\<open>::tolower\<close> on a character, in the C locale.\<close>

definition tolower :: "char \<Rightarrow> char" where
  "tolower c =
     (let n = of_char c :: nat in if 65 \<le> n \<and> n \<le> 90 then char_of (n + 32) else c)"

text \<open>The loop of \<open>splitAndReverse\<close>, over the characters left, and the reversal after it.\<close>

fun splitAndReverse_loop :: "string \<Rightarrow> string \<Rightarrow> string list \<Rightarrow> string list" where
  "splitAndReverse_loop [] current labels =
     (if current \<noteq> [] then labels @ [current] else labels)"
| "splitAndReverse_loop (c # cs) current labels =
     (if c = CHR ''.'' then
        (if current \<noteq> [] then splitAndReverse_loop cs [] (labels @ [current])
         else splitAndReverse_loop cs current labels)
      else splitAndReverse_loop cs (current @ [c]) labels)"

definition splitAndReverse :: "string \<Rightarrow> string list" where
  "splitAndReverse dom_s = rev (splitAndReverse_loop dom_s [] [])"

fun matchImpl_loop :: "TrieNode \<Rightarrow> string list \<Rightarrow> Rule option \<Rightarrow> Rule option" where
  "matchImpl_loop node [] matched_wildcard =
     (if exact_rule node \<noteq> None then exact_rule node
      else if wildcard_rule node \<noteq> None then wildcard_rule node
      else matched_wildcard)"
| "matchImpl_loop node (label # labels) matched_wildcard =
     (let matched_wildcard =
            (if wildcard_rule node \<noteq> None then wildcard_rule node else matched_wildcard)
      in case map_of (children node) label of
           None \<Rightarrow> matched_wildcard
         | Some child \<Rightarrow> matchImpl_loop child labels matched_wildcard)"

definition matchImpl :: "TrieNode \<Rightarrow> string list \<Rightarrow> Rule option" where
  "matchImpl node labels = matchImpl_loop node labels None"

text \<open>
  \<open>insertImpl\<close> returns the node after the insertion below it: \<open>children[label]\<close> creates an
  empty child where there is none.
\<close>

fun insertImpl :: "TrieNode \<Rightarrow> string list \<Rightarrow> bool \<Rightarrow> Rule \<Rightarrow> TrieNode" where
  "insertImpl node [] is_wildcard rule =
     (if is_wildcard then TrieNode (children node) (exact_rule node) (Some rule)
      else TrieNode (children node) (Some rule) (wildcard_rule node))"
| "insertImpl node (label # labels) is_wildcard rule =
     (let child = (case map_of (children node) label of
                     None \<Rightarrow> TrieNode [] None None
                   | Some c \<Rightarrow> c)
      in TrieNode (AList.update label (insertImpl child labels is_wildcard rule) (children node))
           (exact_rule node) (wildcard_rule node))"

text \<open>\<open>DomainTrie::insert\<close>: the rule pointer is \<open>None\<close> when null.\<close>

definition insert_trie :: "DomainTrie \<Rightarrow> string \<Rightarrow> Rule option \<Rightarrow> DomainTrie" where
  "insert_trie t domain rule =
    (if domain = [] \<or> rule = None then t
     else
       let is_wildcard = (length domain > 2 \<and> domain ! 0 = CHR ''*'' \<and> domain ! 1 = CHR ''.'');
           dom_s = (if is_wildcard then drop 2 domain else domain);
           dom_s = map tolower dom_s;
           labels = splitAndReverse dom_s
       in \<lparr>root = insertImpl (root t) labels is_wildcard (the rule),
           rule_count = rule_count t + 1\<rparr>)"

definition match_trie :: "DomainTrie \<Rightarrow> string \<Rightarrow> Rule option" where
  "match_trie t domain =
    (if domain = [] then None
     else
       let dom_s = map tolower domain;
           labels = splitAndReverse dom_s
       in matchImpl (root t) labels)"

definition size_trie :: "DomainTrie \<Rightarrow> nat" where
  "size_trie t = rule_count t"

section \<open>Specification-level definitions\<close>

text \<open>
  The lookup as the specification words it. \<open>walked_path\<close> lists the nodes the walk visits,
  root first, and tells whether every label found its child; \<open>remembered_wildcard\<close> is the
  wildcard rule of the last node of a list that has one; \<open>match_spec\<close> applies the order of
  precedence: the exact rule of the final node, else its wildcard rule, else the remembered
  wildcard of its ancestors, and the remembered wildcard of the nodes visited when a child is
  missing.
\<close>

fun walked_path :: "TrieNode \<Rightarrow> string list \<Rightarrow> TrieNode list \<times> bool" where
  "walked_path node [] = ([node], True)"
| "walked_path node (label # labels) =
     (case map_of (children node) label of
        None \<Rightarrow> ([node], False)
      | Some child \<Rightarrow> (case walked_path child labels of (p, full) \<Rightarrow> (node # p, full)))"

definition remembered_wildcard :: "TrieNode list \<Rightarrow> Rule option" where
  "remembered_wildcard nodes =
     (case filter (\<lambda>n. wildcard_rule n \<noteq> None) nodes of
        [] \<Rightarrow> None
      | n # ns \<Rightarrow> wildcard_rule (last (n # ns)))"

definition match_spec :: "TrieNode \<Rightarrow> string list \<Rightarrow> Rule option" where
  "match_spec rt labels =
     (case walked_path rt labels of
        (p, full) \<Rightarrow>
          if full then
            (if exact_rule (last p) \<noteq> None then exact_rule (last p)
             else if wildcard_rule (last p) \<noteq> None then wildcard_rule (last p)
             else remembered_wildcard (butlast p))
          else remembered_wildcard p)"

text \<open>
  The labels of a domain as the specification words them: the pieces between the dots, the
  empty ones dropped, in reverse order.
\<close>

fun split_dot :: "string \<Rightarrow> string list" where
  "split_dot [] = [[]]"
| "split_dot (c # cs) =
     (if c = CHR ''.'' then [] # split_dot cs
      else (c # hd (split_dot cs)) # tl (split_dot cs))"

definition reversed_labels :: "string \<Rightarrow> string list" where
  "reversed_labels d = rev (filter (\<lambda>l. l \<noteq> []) (split_dot d))"

text \<open>
  The jumps of a name scan. \<open>next_jump\<close> follows literal labels from \<open>offset\<close> to the first
  compression pointer whose two bytes and whose target lie inside the packet, and gives the
  target; it gives \<open>None\<close> where the scan ends before it jumps (a zero byte, a label or a
  pointer that the scan refuses). \<open>after_jumps data len offset n\<close> is the offset the scan stands
  at when it has performed \<open>n\<close> jumps, and \<open>None\<close> when it ends before the \<open>n\<close>-th jump.
\<close>

function next_jump :: "u8 list \<Rightarrow> nat \<Rightarrow> nat \<Rightarrow> nat option" where
  "next_jump data len offset =
     (if offset \<ge> len then None
      else
        let label_len = data ! offset in
        if label_len = 0 then None
        else if label_len AND 0xC0 = 0xC0 then
          if offset + 1 \<ge> len then None
          else
            let ptr = unat (push_bit 8 (ucast (label_len AND 0x3F) :: u16)
                            OR ucast (data ! (offset + 1)))
            in if ptr \<ge> len then None else Some ptr
        else if unat label_len > MAX_LABEL_LENGTH then None
        else if offset + 1 + unat label_len > len then None
        else next_jump data len (offset + 1 + unat label_len))"
  by pat_completeness auto
termination
  by (relation "measure (\<lambda>(data, len, offset). len - offset)") auto

declare next_jump.simps [simp del]

fun after_jumps :: "u8 list \<Rightarrow> nat \<Rightarrow> nat \<Rightarrow> nat \<Rightarrow> nat option" where
  "after_jumps data len offset 0 = Some offset"
| "after_jumps data len offset (Suc n) =
     (case next_jump data len offset of
        None \<Rightarrow> None
      | Some target \<Rightarrow> after_jumps data len target n)"

text \<open>The ASCII upper-case form of a character.\<close>

definition ascii_upper :: "char \<Rightarrow> char" where
  "ascii_upper c =
     (let n = of_char c :: nat in if 97 \<le> n \<and> n \<le> 122 then char_of (n - 32) else c)"

text \<open>
  A name without compression: from \<open>offset\<close> on, literal labels of at most 63 bytes that lie
  inside the packet, ended by a zero byte.
\<close>

function uncompressed_name :: "u8 list \<Rightarrow> nat \<Rightarrow> nat \<Rightarrow> bool" where
  "uncompressed_name data len offset =
     (if offset \<ge> len then False
      else
        let label_len = data ! offset in
        if label_len = 0 then True
        else if unat label_len > MAX_LABEL_LENGTH then False
        else if offset + 1 + unat label_len > len then False
        else uncompressed_name data len (offset + 1 + unat label_len))"
  by pat_completeness auto
termination
  by (relation "measure (\<lambda>(data, len, offset). len - offset)") auto

declare uncompressed_name.simps [simp del]

section \<open>Concrete inputs\<close>

text \<open>The contents of a parse result before a call: every field zero.\<close>

definition result0 :: DNSParseResult where
  "result0 =
     \<lparr>header = \<lparr>hdr_id = 0, hdr_flags = 0, qd_count = 0, an_count = 0, ns_count = 0,
                 ar_count = 0\<rparr>,
      question = \<lparr>name_start = 0, name_offset = 0, name_wire_len = 0, qtype = 0, qclass = 0\<rparr>,
      total_consumed = 0, question_end = 0, res_id = 0, res_flags = 0, is_query = False\<rparr>"

definition xresult0 :: XDPDNSParseResult where
  "xresult0 =
     \<lparr>x_id = 0, x_flags = 0, x_qtype = 0, x_qclass = 0, x_name_offset = 0, x_question_end = 0,
      x_domain = replicate 256 0, x_domain_len = 0\<rparr>"

definition counters0 :: Counters where
  "counters0 = \<lparr>g_packets_received = 0, g_packets_parsed = 0, g_parse_errors = 0\<rparr>"

text \<open>A 17-byte datagram with id \<open>0x1234\<close> whose question count is zero.\<close>

definition pkt_no_question :: "u8 list" where
  "pkt_no_question =
     [0x12, 0x34, 0x01, 0x00, 0x00, 0x00, 0x00, 0x00, 0x00, 0x00, 0x00, 0x00,
      0x00, 0x00, 0x01, 0x00, 0x01]"

text \<open>The query for \<open>www.example.com\<close>, type A, class IN (33 bytes).\<close>

definition pkt_simple_query :: "u8 list" where
  "pkt_simple_query =
     [0x12, 0x34, 0x01, 0x00, 0x00, 0x01, 0x00, 0x00, 0x00, 0x00, 0x00, 0x00,
      0x03, 0x77, 0x77, 0x77, 0x07, 0x65, 0x78, 0x61, 0x6D, 0x70, 0x6C, 0x65,
      0x03, 0x63, 0x6F, 0x6D, 0x00,
      0x00, 0x01, 0x00, 0x01]"

definition parsed_simple :: DNSParseResult where
  "parsed_simple = the (snd (parse (Some pkt_simple_query) 33 (Some result0)))"

text \<open>The same query with an EDNS OPT record in the additional section: \<open>ar_count = 1\<close>.\<close>

definition pkt_edns_query :: "u8 list" where
  "pkt_edns_query =
     [0x12, 0x34, 0x01, 0x00, 0x00, 0x01, 0x00, 0x00, 0x00, 0x00, 0x00, 0x01,
      0x03, 0x77, 0x77, 0x77, 0x07, 0x65, 0x78, 0x61, 0x6D, 0x70, 0x6C, 0x65,
      0x03, 0x63, 0x6F, 0x6D, 0x00,
      0x00, 0x01, 0x00, 0x01,
      0x00, 0x00, 0x29, 0x10, 0x00, 0x00, 0x00, 0x00, 0x00, 0x00, 0x00]"

text \<open>The response to the simple query: the same bytes with QR and RA set.\<close>

definition pkt_response :: "u8 list" where
  "pkt_response =
     [0x12, 0x34, 0x81, 0x80, 0x00, 0x01, 0x00, 0x00, 0x00, 0x00, 0x00, 0x00,
      0x03, 0x77, 0x77, 0x77, 0x07, 0x65, 0x78, 0x61, 0x6D, 0x70, 0x6C, 0x65,
      0x03, 0x63, 0x6F, 0x6D, 0x00,
      0x00, 0x01, 0x00, 0x01]"

text \<open>A query whose name starts with the length byte \<open>0x80\<close> (top bits \<open>10\<close>).\<close>

definition pkt_bad_label :: "u8 list" where
  "pkt_bad_label =
     [0x12, 0x34, 0x01, 0x00, 0x00, 0x01, 0x00, 0x00, 0x00, 0x00, 0x00, 0x00,
      0x80, 0x00, 0x01, 0x00, 0x01]"

text \<open>A query whose name is the pointer \<open>C0 0C\<close> to itself.\<close>

definition pkt_self_pointer :: "u8 list" where
  "pkt_self_pointer =
     [0x12, 0x34, 0x01, 0x00, 0x00, 0x01, 0x00, 0x00, 0x00, 0x00, 0x00, 0x00,
      0xC0, 0x0C, 0x00, 0x01, 0x00, 0x01]"

text \<open>A query whose name is the pointer \<open>FF FF\<close>, to offset \<open>0x3FFF\<close> beyond its 18 bytes.\<close>

definition pkt_bad_pointer :: "u8 list" where
  "pkt_bad_pointer =
     [0x12, 0x34, 0x01, 0x00, 0x00, 0x01, 0x00, 0x00, 0x00, 0x00, 0x00, 0x00,
      0xFF, 0xFF, 0x00, 0x01, 0x00, 0x01]"

text \<open>
  A query whose name is the label \<open>www\<close> followed by a pointer to offset 22, where the label
  \<open>com\<close> and the terminating zero lie after the type and class (27 bytes).
\<close>

definition pkt_compressed_qname :: "u8 list" where
  "pkt_compressed_qname =
     [0x12, 0x34, 0x01, 0x00, 0x00, 0x01, 0x00, 0x00, 0x00, 0x00, 0x00, 0x00,
      0x03, 0x77, 0x77, 0x77, 0xC0, 0x16,
      0x00, 0x01, 0x00, 0x01,
      0x03, 0x63, 0x6F, 0x6D, 0x00]"

definition ipv6_loopback :: "u8 list" where
  "ipv6_loopback = [0, 0, 0, 0, 0, 0, 0, 0, 0, 0, 0, 0, 0, 0, 0, 1]"

definition rule_block :: Rule where
  "rule_block =
     \<lparr>rule_num = 1, action = Block, redirect_ip = 0, ttl = 300, rule_id = ''rule1''\<rparr>"

definition rule_log :: Rule where
  "rule_log =
     \<lparr>rule_num = 2, action = Log, redirect_ip = 0, ttl = 300, rule_id = ''rule2''\<rparr>"

definition trie_s4 :: DomainTrie where
  "trie_s4 =
     insert_trie (insert_trie DomainTrie_new ''*.example.com'' (Some rule_log))
       ''blocked.example.com'' (Some rule_block)"

definition trie_exact_and_wildcard :: DomainTrie where
  "trie_exact_and_wildcard =
     insert_trie (insert_trie DomainTrie_new ''*.example.com'' (Some rule_log))
       ''example.com'' (Some rule_block)"

text \<open>A query whose name is the pointer \<open>C0 0E\<close> to offset 14, where \<open>C0 0C\<close> points back.\<close>

definition pkt_pointer_cycle :: "u8 list" where
  "pkt_pointer_cycle =
     [0x12, 0x34, 0x01, 0x00, 0x00, 0x01, 0x00, 0x00, 0x00, 0x00, 0x00, 0x00,
      0xC0, 0x0E, 0xC0, 0x0C, 0x00, 0x01]"

text \<open>
  A query whose name is a chain of 128 pointers, each to the two bytes that follow it, with
  a zero byte at offset 268 after the last (273 bytes).
\<close>

definition pkt_forward_chain :: "u8 list" where
  "pkt_forward_chain =
     [0x12, 0x34, 0x01, 0x00, 0x00, 0x01, 0x00, 0x00, 0x00, 0x00, 0x00, 0x00]
     @ concat (map (\<lambda>k. [0xC0 OR of_nat ((14 + 2 * k) div 256), of_nat ((14 + 2 * k) mod 256)])
                [0..<128])
     @ [0x00, 0x00, 0x01, 0x00, 0x01]"

text \<open>The trie after \<open>.\<close> is inserted in the empty trie: the root holds an exact rule.\<close>

definition trie_root_rule :: DomainTrie where
  "trie_root_rule = insert_trie DomainTrie_new ''.'' (Some rule_block)"

text \<open>A response buffer of 512 bytes and a name buffer of 256 bytes, zeroed.\<close>

definition response0 :: "u8 list" where
  "response0 = replicate 512 0"

definition out_buf0 :: "u8 list" where
  "out_buf0 = replicate 256 0"

section \<open>Properties of the parser\<close>

lemma parseName_loop_errors:
  "fst (parseName_loop data len offset oo j jc tlen outs)
     \<in> {Success, TruncatedMessage, PointerLoop, InvalidLabel}"
proof (induction data len offset oo j jc tlen outs rule: parseName_loop.induct)
  case (1 data len offset oo j jc tlen outs)
  show ?case
    using "1.IH"
    by (subst parseName_loop.simps) (auto simp: Let_def)
qed

lemma parseName_errors:
  "parseName data len offset outs = (e, x) \<Longrightarrow> e \<noteq> PacketTooShort"
  using parseName_loop_errors [of data len offset offset False 0 0 outs]
  by (auto simp: parseName_def)

text \<open>
  Claim C1, as amended. When \<open>data\<close> is null, \<open>parse\<close> returns \<open>InvalidHeader\<close> and writes
  nothing. When \<open>parse\<close> fails on non-null arguments, the fields \<open>qtype\<close>, \<open>qclass\<close>,
  \<open>total_consumed\<close> and \<open>question_end\<close> of \<open>*result\<close> hold their values from before the call, and
  on \<open>PacketTooShort\<close> the whole structure does. On every other failure the fields \<open>header\<close>,
  \<open>id\<close>, \<open>flags\<close> and \<open>is_query\<close> have been overwritten from the packet.
\<close>

theorem parse_failure_partial_write:
  "parse None len (Some result) = (InvalidHeader, Some result)
   \<and> (parse (Some data) len (Some result) = (e, r') \<and> e \<noteq> Success \<longrightarrow>
        (\<exists>r. r' = Some r
           \<and> qtype (question r) = qtype (question result)
           \<and> qclass (question r) = qclass (question result)
           \<and> total_consumed r = total_consumed result
           \<and> question_end r = question_end result
           \<and> (e = PacketTooShort \<longrightarrow> r = result)
           \<and> (e \<noteq> PacketTooShort \<longrightarrow>
                 header r = header_at data \<and> res_id r = getId (header_at data)
                 \<and> res_flags r = getFlags (header_at data)
                 \<and> is_query r = isQuery (header_at data))))"
proof (intro conjI impI)
  show "parse None len (Some result) = (InvalidHeader, Some result)"
    by simp
next
  assume "parse (Some data) len (Some result) = (e, r') \<and> e \<noteq> Success"
  then show "\<exists>r. r' = Some r
           \<and> qtype (question r) = qtype (question result)
           \<and> qclass (question r) = qclass (question result)
           \<and> total_consumed r = total_consumed result
           \<and> question_end r = question_end result
           \<and> (e = PacketTooShort \<longrightarrow> r = result)
           \<and> (e \<noteq> PacketTooShort \<longrightarrow>
                 header r = header_at data \<and> res_id r = getId (header_at data)
                 \<and> res_flags r = getFlags (header_at data)
                 \<and> is_query r = isQuery (header_at data))"
    by (auto simp: Let_def split: if_splits prod.splits dest: parseName_errors)
qed

theorem parse_failure_partial_write_witness:
  "parse (Some pkt_no_question) 17 (Some result0)
     = (InvalidHeader, snd (parse (Some pkt_no_question) 17 (Some result0)))
   \<and> InvalidHeader \<noteq> Success
   \<and> (\<exists>r. snd (parse (Some pkt_no_question) 17 (Some result0)) = Some r
           \<and> qtype (question r) = qtype (question result0)
           \<and> total_consumed r = total_consumed result0
           \<and> res_id r = getId (header_at pkt_no_question))"
proof -
  have h: "parse (Some pkt_no_question) 17 (Some result0)
              = (InvalidHeader, snd (parse (Some pkt_no_question) 17 (Some result0)))
           \<and> InvalidHeader \<noteq> Success"
    by code_simp
  show ?thesis
    using h parse_failure_partial_write [of 17 result0 pkt_no_question InvalidHeader
        "snd (parse (Some pkt_no_question) 17 (Some result0))"]
    by auto
qed

text \<open>
  Claim C1 as stated fails: on a 17-byte datagram whose question count is zero \<open>parse\<close>
  returns \<open>InvalidHeader\<close> after it has stored the id \<open>0x1234\<close> of the packet in \<open>*result\<close>.
\<close>

theorem parse_failure_counterexample:
  "fst (parse (Some pkt_no_question) 17 (Some result0)) = InvalidHeader
   \<and> snd (parse (Some pkt_no_question) 17 (Some result0)) \<noteq> Some result0
   \<and> res_id (the (snd (parse (Some pkt_no_question) 17 (Some result0)))) = 0x1234
   \<and> res_id result0 = 0"
  by code_simp

text \<open>
  Claim C3, evaluated where it fails. The name of \<open>pkt_compressed_qname\<close> occupies the six
  bytes 12 to 17 (the label \<open>www\<close> and the pointer that ends it: the question ends at
  \<open>18 + 4\<close>), yet \<open>name_wire_len\<close> is 9: the four bytes of the label \<open>com\<close>, reached through the
  pointer, are counted too, and one byte is added for the terminator.
\<close>

theorem wire_len_counts_after_jump:
  "fst (parse (Some pkt_compressed_qname) 27 (Some result0)) = Success
   \<and> question_end (the (snd (parse (Some pkt_compressed_qname) 27 (Some result0)))) = 18 + 4
   \<and> name_wire_len (question (the (snd (parse (Some pkt_compressed_qname) 27 (Some result0)))))
       = 9"
  by code_simp

subsection \<open>Pointer loops\<close>

lemma parseName_loop_cap:
  "MAX_LABELS \<le> jc \<Longrightarrow>
     parseName_loop data len offset oo j jc tlen outs = (PointerLoop, outs)"
  by (subst parseName_loop.simps) simp

lemma parseName_loop_bad_pointer:
  assumes "jc < MAX_LABELS" and "offset + 1 < len" and "data ! offset AND 0xC0 = 0xC0"
    and "len \<le> unat (push_bit 8 (ucast (data ! offset AND 0x3F) :: u16)
                       OR ucast (data ! (offset + 1)))"
  shows "parseName_loop data len offset oo j jc tlen outs = (PointerLoop, outs)"
proof -
  have "data ! offset \<noteq> 0"
    using assms(3) by auto
  then show ?thesis
    using assms by (subst parseName_loop.simps) (simp add: Let_def)
qed

lemma parseName_loop_self_pointer:
  assumes "data ! 12 = 0xC0" and "data ! 13 = 0x0C" and "13 < len"
  shows "parseName_loop data len 12 oo j jc tlen outs = (PointerLoop, outs)"
proof (induction "MAX_LABELS - jc" arbitrary: jc oo j)
  case 0
  then show ?case by (simp add: parseName_loop_cap)
next
  case (Suc n)
  then have lt: "jc < MAX_LABELS" and n: "n = MAX_LABELS - (jc + 1)"
    by simp_all
  have step: "parseName_loop data len 12 oo j jc tlen outs
                = parseName_loop data len 12 (if \<not> j then 12 else oo) True (jc + 1) tlen outs"
    using assms lt by (subst parseName_loop.simps) (simp add: Let_def)
  show ?case
    unfolding step by (rule Suc.hyps(1) [OF n])
qed

lemma pointer_byte_ge: "(l :: u8) AND 0xC0 = 0xC0 \<Longrightarrow> 192 \<le> unat l"
proof -
  assume a: "l AND 0xC0 = 0xC0"
  have "l AND 0xC0 \<le> l"
    by (rule word_and_le2)
  with a have "(0xC0 :: u8) \<le> l"
    by simp
  then show ?thesis
    by (simp add: word_le_nat_alt)
qed

lemma label_not_pointer: "unat (l :: u8) \<le> MAX_LABEL_LENGTH \<Longrightarrow> l AND 0xC0 \<noteq> 0xC0"
  using pointer_byte_ge [of l] by (auto simp: MAX_LABEL_LENGTH_def)

lemma parseName_loop_label_step:
  assumes "jc < MAX_LABELS" and "offset < len" and "data ! offset \<noteq> 0"
    and "unat (data ! offset) \<le> MAX_LABEL_LENGTH" and "offset + 1 + unat (data ! offset) \<le> len"
  shows "parseName_loop data len offset oo j jc tlen outs
           = parseName_loop data len (offset + 1 + unat (data ! offset)) oo j jc
               (tlen + (1 + unat (data ! offset))) outs"
  using assms label_not_pointer [OF assms(4)]
  by (subst parseName_loop.simps) (simp add: Let_def)

lemma parseName_loop_jump_step:
  assumes "jc < MAX_LABELS" and "offset + 1 < len" and "data ! offset AND 0xC0 = 0xC0"
    and "unat (push_bit 8 (ucast (data ! offset AND 0x3F) :: u16)
               OR ucast (data ! (offset + 1))) < len"
  shows "parseName_loop data len offset oo j jc tlen outs
           = parseName_loop data len
               (unat (push_bit 8 (ucast (data ! offset AND 0x3F) :: u16)
                      OR ucast (data ! (offset + 1))))
               (if \<not> j then offset else oo) True (jc + 1) tlen outs"
proof -
  have "data ! offset \<noteq> 0"
    using assms(3) by auto
  then show ?thesis
    using assms by (subst parseName_loop.simps) (simp add: Let_def)
qed

lemma parseName_loop_next_jump:
  assumes "next_jump data len offset = Some target" and "jc < MAX_LABELS"
  shows "\<exists>oo' tlen'. parseName_loop data len offset oo j jc tlen outs
           = parseName_loop data len target oo' True (jc + 1) tlen' outs"
  using assms
proof (induction data len offset arbitrary: tlen rule: next_jump.induct)
  case (1 data len offset)
  from "1.prems"(1) have lt: "offset < len" and nz: "data ! offset \<noteq> 0"
    by (subst (asm) next_jump.simps; simp add: Let_def split: if_splits)+
  show ?case
  proof (cases "data ! offset AND 0xC0 = 0xC0")
    case True
    with "1.prems"(1) lt nz have b: "offset + 1 < len"
      and t: "target = unat (push_bit 8 (ucast (data ! offset AND 0x3F) :: u16)
                             OR ucast (data ! (offset + 1)))"
      and tl: "target < len"
      by (subst (asm) next_jump.simps; simp add: Let_def split: if_splits)+
    show ?thesis
      using parseName_loop_jump_step [OF "1.prems"(2) b True, of oo j tlen outs] tl t
      by auto
  next
    case False
    with "1.prems"(1) lt nz have small: "unat (data ! offset) \<le> MAX_LABEL_LENGTH"
      and fits: "offset + 1 + unat (data ! offset) \<le> len"
      and rest: "next_jump data len (offset + 1 + unat (data ! offset)) = Some target"
      by (subst (asm) next_jump.simps; simp add: Let_def split: if_splits)+
    have step: "parseName_loop data len offset oo j jc tlen outs
                  = parseName_loop data len (offset + 1 + unat (data ! offset)) oo j jc
                      (tlen + (1 + unat (data ! offset))) outs"
      by (rule parseName_loop_label_step [OF "1.prems"(2) lt nz small fits])
    have "\<exists>oo' tlen'. parseName_loop data len (offset + 1 + unat (data ! offset)) oo j jc
                 (tlen + (1 + unat (data ! offset))) outs
               = parseName_loop data len target oo' True (jc + 1) tlen' outs"
      using lt small fits
      by (intro "1.IH" [OF _ refl nz False _ _ rest "1.prems"(2)]) simp_all
    then show ?thesis
      unfolding step .
  qed
qed

lemma parseName_loop_after_jumps:
  assumes "after_jumps data len offset n \<noteq> None" and "MAX_LABELS \<le> jc + n"
  shows "parseName_loop data len offset oo j jc tlen outs = (PointerLoop, outs)"
  using assms
proof (induction n arbitrary: offset jc oo j tlen)
  case 0
  then show ?case
    by (simp add: parseName_loop_cap)
next
  case (Suc n)
  show ?case
  proof (cases "jc < MAX_LABELS")
    case False
    then show ?thesis
      by (simp add: parseName_loop_cap)
  next
    case True
    from Suc.prems(1) obtain target where nj: "next_jump data len offset = Some target"
      and aj: "after_jumps data len target n \<noteq> None"
      by (auto split: option.splits)
    from parseName_loop_next_jump [OF nj True, of oo j tlen outs]
    obtain oo' tlen' where "parseName_loop data len offset oo j jc tlen outs
           = parseName_loop data len target oo' True (jc + 1) tlen' outs"
      by blast
    moreover have "parseName_loop data len target oo' True (jc + 1) tlen' outs
                     = (PointerLoop, outs)"
      using Suc.IH [OF aj, of "jc + 1" oo' True tlen'] Suc.prems(2) by simp
    ultimately show ?thesis
      by simp
  qed
qed

text \<open>
  Claim C6. \<open>parseName_loop\<close> is a total function: its termination proof orders the states by
  the jumps left below \<open>MAX_LABELS\<close> and then by the bytes left in the packet, so \<open>parse\<close>
  returns on every input. A scan that performs \<open>MAX_LABELS = 128\<close> jumps (from any state: as
  many jumps as its counter leaves below the cap) returns \<open>PointerLoop\<close>, whatever the
  pointers and the labels between them, and so do \<open>parseName\<close> and \<open>parse\<close> on such a name. A
  scan at a pointer whose 14-bit target is at or beyond \<open>len\<close> returns \<open>PointerLoop\<close>. \<open>parse\<close>
  returns \<open>PointerLoop\<close> on every packet with a question whose name at offset 12 is the
  pointer \<open>C0 0C\<close>.
\<close>

theorem parse_pointer_loop:
  "(MAX_LABELS \<le> jump_count + n \<and> after_jumps data len offset n \<noteq> None \<longrightarrow>
      parseName_loop data len offset original_offset jumped jump_count total_len outs
        = (PointerLoop, outs))
   \<and> (after_jumps data len offset MAX_LABELS \<noteq> None \<longrightarrow>
        parseName data len offset outs = (PointerLoop, outs))
   \<and> (MIN_DNS_QUERY_SIZE \<le> len \<and> getQDCount (header_at data) \<noteq> 0
        \<and> after_jumps data len DNS_HEADER_SIZE MAX_LABELS \<noteq> None \<longrightarrow>
      fst (parse (Some data) len (Some result)) = PointerLoop)
   \<and> (jump_count < MAX_LABELS \<and> offset + 1 < len \<and> data ! offset AND 0xC0 = 0xC0
        \<and> len \<le> unat (push_bit 8 (ucast (data ! offset AND 0x3F) :: u16)
                         OR ucast (data ! (offset + 1))) \<longrightarrow>
      parseName_loop data len offset original_offset jumped jump_count total_len outs
        = (PointerLoop, outs))
   \<and> (MIN_DNS_QUERY_SIZE \<le> len \<and> getQDCount (header_at data) \<noteq> 0
        \<and> data ! 12 = 0xC0 \<and> data ! 13 = 0x0C \<longrightarrow>
      fst (parse (Some data) len (Some result)) = PointerLoop)"
proof (intro conjI impI)
  assume a: "MAX_LABELS \<le> jump_count + n \<and> after_jumps data len offset n \<noteq> None"
  show "parseName_loop data len offset original_offset jumped jump_count total_len outs
        = (PointerLoop, outs)"
    by (rule parseName_loop_after_jumps [OF conjunct2 [OF a] conjunct1 [OF a]])
next
  assume "after_jumps data len offset MAX_LABELS \<noteq> None"
  then show "parseName data len offset outs = (PointerLoop, outs)"
    unfolding parseName_def by (rule parseName_loop_after_jumps) simp
next
  assume a: "MIN_DNS_QUERY_SIZE \<le> len \<and> getQDCount (header_at data) \<noteq> 0
        \<and> after_jumps data len DNS_HEADER_SIZE MAX_LABELS \<noteq> None"
  then have "parseName_loop data len DNS_HEADER_SIZE DNS_HEADER_SIZE False 0 0 (0, 0)
               = (PointerLoop, 0, 0)"
    by (intro parseName_loop_after_jumps [of data len DNS_HEADER_SIZE MAX_LABELS]) simp_all
  with a show "fst (parse (Some data) len (Some result)) = PointerLoop"
    by (simp add: Let_def parseName_def)
next
  assume "jump_count < MAX_LABELS \<and> offset + 1 < len \<and> data ! offset AND 0xC0 = 0xC0
        \<and> len \<le> unat (push_bit 8 (ucast (data ! offset AND 0x3F) :: u16)
                         OR ucast (data ! (offset + 1)))"
  then show "parseName_loop data len offset original_offset jumped jump_count total_len outs
        = (PointerLoop, outs)"
    by (simp add: parseName_loop_bad_pointer)
next
  assume a: "MIN_DNS_QUERY_SIZE \<le> len \<and> getQDCount (header_at data) \<noteq> 0
        \<and> data ! 12 = 0xC0 \<and> data ! 13 = 0x0C"
  then have "13 < len"
    by (simp add: MIN_DNS_QUERY_SIZE_def DNS_HEADER_SIZE_def)
  with a have "parseName data len 12 (0, 0) = (PointerLoop, 0, 0)"
    by (simp add: parseName_def parseName_loop_self_pointer)
  with a show "fst (parse (Some data) len (Some result)) = PointerLoop"
    by (simp add: Let_def DNS_HEADER_SIZE_def)
qed

theorem parse_pointer_loop_witness:
  "after_jumps pkt_pointer_cycle 18 12 128 = Some 12
   \<and> after_jumps pkt_forward_chain 273 12 128 = Some 268
   \<and> pkt_forward_chain ! 268 = 0
   \<and> MAX_LABELS = 128 \<and> DNS_HEADER_SIZE = 12
   \<and> (MIN_DNS_QUERY_SIZE \<le> 18 \<and> getQDCount (header_at pkt_pointer_cycle) \<noteq> 0)
   \<and> (MIN_DNS_QUERY_SIZE \<le> 273 \<and> getQDCount (header_at pkt_forward_chain) \<noteq> 0)
   \<and> (0 < MAX_LABELS \<and> 12 + 1 < (18::nat) \<and> pkt_bad_pointer ! 12 AND 0xC0 = 0xC0
        \<and> 18 \<le> unat (push_bit 8 (ucast (pkt_bad_pointer ! 12 AND 0x3F) :: u16)
                         OR ucast (pkt_bad_pointer ! (12 + 1))))
   \<and> (getQDCount (header_at pkt_self_pointer) \<noteq> 0
        \<and> pkt_self_pointer ! 12 = 0xC0 \<and> pkt_self_pointer ! 13 = 0x0C)
   \<and> parseName_loop pkt_pointer_cycle 18 12 12 False 0 0 (0, 0) = (PointerLoop, 0, 0)
   \<and> parseName pkt_pointer_cycle 18 12 (0, 0) = (PointerLoop, 0, 0)
   \<and> fst (parse (Some pkt_pointer_cycle) 18 (Some result0)) = PointerLoop
   \<and> parseName pkt_forward_chain 273 12 (0, 0) = (PointerLoop, 0, 0)
   \<and> fst (parse (Some pkt_forward_chain) 273 (Some result0)) = PointerLoop
   \<and> parseName_loop pkt_bad_pointer 18 12 12 False 0 0 (0, 0) = (PointerLoop, 0, 0)
   \<and> fst (parse (Some pkt_self_pointer) 18 (Some result0)) = PointerLoop"
proof -
  have c: "MAX_LABELS = 128" "DNS_HEADER_SIZE = 12"
    by (simp_all add: MAX_LABELS_def DNS_HEADER_SIZE_def)
  have h0: "after_jumps pkt_pointer_cycle 18 12 128 = Some 12"
    by code_simp
  have f0: "after_jumps pkt_forward_chain 273 12 128 = Some 268"
    by code_simp
  have f1: "pkt_forward_chain ! 268 = 0"
    by code_simp
  have h1: "MIN_DNS_QUERY_SIZE \<le> 18 \<and> getQDCount (header_at pkt_pointer_cycle) \<noteq> 0"
    by code_simp
  have f2: "MIN_DNS_QUERY_SIZE \<le> 273 \<and> getQDCount (header_at pkt_forward_chain) \<noteq> 0"
    by code_simp
  have h2: "0 < MAX_LABELS \<and> 12 + 1 < (18::nat) \<and> pkt_bad_pointer ! 12 AND 0xC0 = 0xC0
        \<and> 18 \<le> unat (push_bit 8 (ucast (pkt_bad_pointer ! 12 AND 0x3F) :: u16)
                         OR ucast (pkt_bad_pointer ! (12 + 1)))"
    by code_simp
  have h3: "getQDCount (header_at pkt_self_pointer) \<noteq> 0
        \<and> pkt_self_pointer ! 12 = 0xC0 \<and> pkt_self_pointer ! 13 = 0x0C"
    by code_simp
  show ?thesis
    using c h0 f0 f1 h1 f2 h2 h3
      parse_pointer_loop [of 0 128 pkt_pointer_cycle 18 12 12 False 0 "(0, 0)" result0]
      parse_pointer_loop [of 0 128 pkt_forward_chain 273 12 12 False 0 "(0, 0)" result0]
      parse_pointer_loop [of 0 128 pkt_bad_pointer 18 12 12 False 0 "(0, 0)" result0]
      parse_pointer_loop [of 0 128 pkt_self_pointer 18 12 12 False 0 "(0, 0)" result0]
    by simp
qed

section \<open>Properties of the builders\<close>

lemma length_memcpy0:
  "n \<le> length src \<Longrightarrow> n \<le> length dst \<Longrightarrow> length (memcpy dst 0 src n) = length dst"
  by (simp add: memcpy_def)

text \<open>
  \<open>buildNXDomain\<close> and \<open>buildRefused\<close> write zero to \<open>an_count\<close>, \<open>ns_count\<close> and \<open>ar_count\<close>
  (bytes 6 to 11 of the response).
\<close>

lemma buildNXDomain_counts_zero:
  assumes "total_consumed parsed \<le> response_buf_size"
    and "total_consumed parsed \<le> length query" and "response_buf_size \<le> length response"
    and "12 \<le> total_consumed parsed"
  shows "take 6 (drop 6 (snd (buildNXDomain query query_len parsed response response_buf_size)))
           = [0, 0, 0, 0, 0, 0]"
    and "take 6 (drop 6 (snd (buildRefused query query_len parsed response response_buf_size)))
           = [0, 0, 0, 0, 0, 0]"
proof -
  have len: "12 \<le> length (memcpy response 0 query (total_consumed parsed))"
    using assms by (simp add: length_memcpy0)
  have *: "take 6 (drop 6 (store16 (store16 (store16 (store16 b 2 v) 6 0) 8 0) 10 0))
             = [0, 0, 0, 0, 0, 0]" if "12 \<le> length b" for b :: "u8 list" and v
    using that
    by (auto simp: store16_def list_eq_iff_nth_eq nth_list_update less_Suc_eq numeral_eq_Suc)
  show "take 6 (drop 6 (snd (buildNXDomain query query_len parsed response response_buf_size)))
           = [0, 0, 0, 0, 0, 0]"
    using assms(1) * [OF len] by (simp add: buildNXDomain_def Let_def)
  show "take 6 (drop 6 (snd (buildRefused query query_len parsed response response_buf_size)))
           = [0, 0, 0, 0, 0, 0]"
    using assms(1) * [OF len] by (simp add: buildRefused_def Let_def)
qed

text \<open>
  \<open>buildAResponse\<close> and \<open>buildAAAAResponse\<close> leave every byte of the copied question as the
  query has it, but for \<open>flags\<close> (bytes 2 and 3) and \<open>an_count\<close> (bytes 6 and 7): \<open>ns_count\<close>
  and \<open>ar_count\<close> (bytes 8 to 11) are those of the query.
\<close>

lemma buildAResponse_nth:
  assumes "total_consumed parsed + 16 \<le> cap" and "total_consumed parsed \<le> length query"
    and "i < total_consumed parsed" and "i \<notin> {2, 3, 6, 7}"
  shows "snd (buildAResponse query ql parsed ip ttl_v response cap) ! i = query ! i"
  using assms
  by (simp add: buildAResponse_def Let_def store16_def store32_def memcpy_def nth_append)

lemma buildAResponse_len:
  assumes "total_consumed parsed + 16 \<le> cap"
  shows "fst (buildAResponse query ql parsed ip ttl_v response cap) = total_consumed parsed + 16"
  using assms by (simp add: buildAResponse_def Let_def)

lemma buildAAAAResponse_nth:
  assumes "total_consumed parsed + 28 \<le> cap" and "total_consumed parsed \<le> length query"
    and "i < total_consumed parsed" and "i \<notin> {2, 3, 6, 7}"
  shows "snd (buildAAAAResponse query ql parsed ipv6_addr ttl_v response cap) ! i = query ! i"
  using assms
  by (simp add: buildAAAAResponse_def Let_def store16_def store32_def memcpy_def nth_append)

text \<open>
  Claim C4, evaluated where it fails. For the query \<open>pkt_edns_query\<close>, whose \<open>ar_count\<close> is 1,
  the A and AAAA builders return a header whose bytes 10 and 11 still hold \<open>00 01\<close>: they
  set \<open>flags\<close> and \<open>an_count\<close> only. \<open>buildNXDomain\<close> writes zero to both counts.
\<close>

theorem a_response_keeps_ar_count:
  "fst (parse (Some pkt_edns_query) 44 (Some result0)) = Success
   \<and> fst (buildAResponse pkt_edns_query 44
            (the (snd (parse (Some pkt_edns_query) 44 (Some result0))))
            0x6401A8C0 300 (replicate 512 0) 512) = 49
   \<and> take 12 (snd (buildAResponse pkt_edns_query 44
            (the (snd (parse (Some pkt_edns_query) 44 (Some result0))))
            0x6401A8C0 300 (replicate 512 0) 512))
       = [0x12, 0x34, 0x85, 0x80, 0x00, 0x01, 0x00, 0x01, 0x00, 0x00, 0x00, 0x01]
   \<and> take 12 (snd (buildAAAAResponse pkt_edns_query 44
            (the (snd (parse (Some pkt_edns_query) 44 (Some result0))))
            ipv6_loopback 300 (replicate 512 0) 512))
       = [0x12, 0x34, 0x85, 0x80, 0x00, 0x01, 0x00, 0x01, 0x00, 0x00, 0x00, 0x01]
   \<and> take 12 (snd (buildNXDomain pkt_edns_query 44
            (the (snd (parse (Some pkt_edns_query) 44 (Some result0))))
            (replicate 512 0) 512))
       = [0x12, 0x34, 0x81, 0x83, 0x00, 0x01, 0x00, 0x00, 0x00, 0x00, 0x00, 0x00]"
  by code_simp

text \<open>
  Claim C7. Each builder compares the capacity of the response buffer with
  \<open>total_consumed\<close> plus the size of its answer (0, 0, 16, 28 bytes). Below it, the builder
  returns 0 and the buffer is unchanged; otherwise it returns that sum.
\<close>

theorem builders_buffer_check:
  "(response_buf_size < total_consumed parsed + 0 \<longrightarrow>
      buildNXDomain query query_len parsed response response_buf_size = (0, response)
      \<and> buildRefused query query_len parsed response response_buf_size = (0, response))
   \<and> (response_buf_size < total_consumed parsed + 16 \<longrightarrow>
      buildAResponse query query_len parsed ip ttl_v response response_buf_size
        = (0, response))
   \<and> (response_buf_size < total_consumed parsed + 28 \<longrightarrow>
      buildAAAAResponse query query_len parsed ipv6_addr ttl_v response response_buf_size
        = (0, response))
   \<and> (\<not> response_buf_size < total_consumed parsed + 0 \<longrightarrow>
      fst (buildNXDomain query query_len parsed response response_buf_size)
        = total_consumed parsed + 0
      \<and> fst (buildRefused query query_len parsed response response_buf_size)
        = total_consumed parsed + 0)
   \<and> (\<not> response_buf_size < total_consumed parsed + 16 \<longrightarrow>
      fst (buildAResponse query query_len parsed ip ttl_v response response_buf_size)
        = total_consumed parsed + 16)
   \<and> (\<not> response_buf_size < total_consumed parsed + 28 \<longrightarrow>
      fst (buildAAAAResponse query query_len parsed ipv6_addr ttl_v response response_buf_size)
        = total_consumed parsed + 28)"
  by (simp add: buildNXDomain_def buildRefused_def buildAResponse_def buildAAAAResponse_def
        Let_def)

theorem builders_buffer_check_witness:
  "(32::nat) < total_consumed parsed_simple + 0
   \<and> (48::nat) < total_consumed parsed_simple + 16
   \<and> (60::nat) < total_consumed parsed_simple + 28
   \<and> \<not> (512::nat) < total_consumed parsed_simple + 28
   \<and> buildNXDomain pkt_simple_query 33 parsed_simple (replicate 32 0) 32 = (0, replicate 32 0)
   \<and> buildAResponse pkt_simple_query 33 parsed_simple 0x6401A8C0 300 (replicate 48 0) 48
        = (0, replicate 48 0)
   \<and> buildAAAAResponse pkt_simple_query 33 parsed_simple ipv6_loopback 300 (replicate 60 0) 60
        = (0, replicate 60 0)
   \<and> fst (buildRefused pkt_simple_query 33 parsed_simple (replicate 512 0) 512) = 33
   \<and> fst (buildAResponse pkt_simple_query 33 parsed_simple 0x6401A8C0 300 (replicate 512 0) 512)
        = 49
   \<and> fst (buildAAAAResponse pkt_simple_query 33 parsed_simple ipv6_loopback 300
            (replicate 512 0) 512) = 61"
proof -
  have tc: "total_consumed parsed_simple = 33"
    by code_simp
  show ?thesis
    using tc
      builders_buffer_check [where response_buf_size = 32 and parsed = parsed_simple
        and query = pkt_simple_query and query_len = 33 and response = "replicate 32 0"]
      builders_buffer_check [where response_buf_size = 48 and parsed = parsed_simple
        and query = pkt_simple_query and query_len = 33 and response = "replicate 48 0"
        and ip = "0x6401A8C0" and ttl_v = 300]
      builders_buffer_check [where response_buf_size = 60 and parsed = parsed_simple
        and query = pkt_simple_query and query_len = 33 and response = "replicate 60 0"
        and ipv6_addr = ipv6_loopback and ttl_v = 300]
      builders_buffer_check [where response_buf_size = 512 and parsed = parsed_simple
        and query = pkt_simple_query and query_len = 33 and response = "replicate 512 0"
        and ip = "0x6401A8C0" and ttl_v = 300 and ipv6_addr = ipv6_loopback]
    by simp
qed

section \<open>Properties of the facade\<close>

lemma parse_fst_indep:
  "fst (parse (Some data) len (Some r)) = fst (parse (Some data) len (Some r'))"
  by (simp add: Let_def split: prod.splits)

lemma parse_is_query:
  "parse (Some data) len (Some r) = (Success, r') \<Longrightarrow>
     is_query (the r') = isQuery (header_at data)"
  by (auto simp: Let_def split: prod.splits if_splits)

lemma xdp_dns_parse_propagates:
  assumes "12 \<le> len" and "fst (parse (Some data) len (Some parsed0)) = err"
    and "err \<noteq> Success"
  shows "fst (xdp_dns_parse g parsed0 (Some data) len (Some result)) = Error_int err"
  using assms by (cases "parse (Some data) len (Some parsed0)") (simp add: Let_def)

lemma xdp_dns_parse_not_query:
  assumes "12 \<le> len" and "fst (parse (Some data) len (Some parsed0)) = Success"
    and "\<not> isQuery (header_at data)"
  shows "fst (xdp_dns_parse g parsed0 (Some data) len (Some result))
           = XDP_DNS_ERR_NOT_DNS_QUERY"
proof (cases "parse (Some data) len (Some parsed0)")
  case (Pair e r)
  with assms(2) have "parse (Some data) len (Some parsed0) = (Success, r)"
    by simp
  from parse_is_query [OF this] assms(3) have "\<not> is_query (the r)"
    by simp
  with Pair assms(1,2) show ?thesis
    by (simp add: Let_def)
qed

text \<open>
  Claim C10. \<open>xdp_dns_parse\<close> returns the integer value of the error \<open>parse\<close> reports. A
  packet of 12 to 16 bytes yields \<open>PacketTooShort\<close>, whose value \<open>-1\<close> is that of
  \<open>XDP_DNS_ERR_INVALID_PARAM\<close>. The malformed packet \<open>pkt_bad_label\<close> yields \<open>InvalidLabel\<close>,
  whose value \<open>-5\<close> is that of \<open>XDP_DNS_ERR_NOT_DNS_QUERY\<close>, the status returned for the
  well-formed response \<open>pkt_response\<close>.
\<close>

theorem facade_status_overlap:
  "(12 \<le> len \<and> fst (parse (Some data) len (Some parsed0)) = err \<and> err \<noteq> Success \<longrightarrow>
      fst (xdp_dns_parse g parsed0 (Some data) len (Some result)) = Error_int err)
   \<and> (12 \<le> len \<and> len < 17 \<longrightarrow>
        fst (xdp_dns_parse g parsed0 (Some data) len (Some result)) = Error_int PacketTooShort
        \<and> Error_int PacketTooShort = XDP_DNS_ERR_INVALID_PARAM)
   \<and> fst (parse (Some pkt_bad_label) 17 (Some parsed0)) = InvalidLabel
   \<and> fst (xdp_dns_parse g parsed0 (Some pkt_bad_label) 17 (Some result)) = -5
   \<and> fst (parse (Some pkt_response) 33 (Some parsed0)) = Success
   \<and> fst (xdp_dns_parse g parsed0 (Some pkt_response) 33 (Some result)) = -5
   \<and> Error_int InvalidLabel = XDP_DNS_ERR_NOT_DNS_QUERY"
proof -
  have bad: "fst (parse (Some pkt_bad_label) 17 (Some parsed0)) = InvalidLabel"
  proof -
    have "fst (parse (Some pkt_bad_label) 17 (Some result0)) = InvalidLabel"
      by code_simp
    then show ?thesis
      using parse_fst_indep [of pkt_bad_label 17 parsed0 result0] by simp
  qed
  have resp: "fst (parse (Some pkt_response) 33 (Some parsed0)) = Success"
  proof -
    have "fst (parse (Some pkt_response) 33 (Some result0)) = Success"
      by code_simp
    then show ?thesis
      using parse_fst_indep [of pkt_response 33 parsed0 result0] by simp
  qed
  have nq: "\<not> isQuery (header_at pkt_response)"
    by code_simp
  have short: "fst (parse (Some data) len (Some parsed0)) = PacketTooShort" if "len < 17"
    using that by (simp add: MIN_DNS_QUERY_SIZE_def DNS_HEADER_SIZE_def)
  show ?thesis
    using bad resp short
      xdp_dns_parse_propagates [of len data parsed0 err g result]
      xdp_dns_parse_propagates [of len data parsed0 PacketTooShort g result]
      xdp_dns_parse_propagates [of 17 pkt_bad_label parsed0 InvalidLabel g result]
      xdp_dns_parse_not_query [of 33 pkt_response parsed0 g result, OF _ _ nq]
    by (simp add: XDP_DNS_ERR_INVALID_PARAM_def XDP_DNS_ERR_NOT_DNS_QUERY_def)
qed

theorem facade_status_overlap_witness:
  "(12 \<le> (17::nat) \<and> fst (parse (Some pkt_bad_label) 17 (Some result0)) = InvalidLabel
      \<and> InvalidLabel \<noteq> Success)
   \<and> fst (xdp_dns_parse counters0 result0 (Some pkt_bad_label) 17 (Some xresult0))
        = Error_int InvalidLabel
   \<and> (12 \<le> (16::nat) \<and> (16::nat) < 17)
   \<and> fst (xdp_dns_parse counters0 result0 (Some pkt_bad_label) 16 (Some xresult0))
        = Error_int PacketTooShort"
proof -
  have h1: "12 \<le> (17::nat) \<and> fst (parse (Some pkt_bad_label) 17 (Some result0)) = InvalidLabel
      \<and> InvalidLabel \<noteq> Success"
    by code_simp
  have h2: "12 \<le> (16::nat) \<and> (16::nat) < 17"
    by simp
  show ?thesis
    using h1 h2
      facade_status_overlap [of 17 pkt_bad_label result0 InvalidLabel counters0 xresult0]
      facade_status_overlap [of 16 pkt_bad_label result0 InvalidLabel counters0 xresult0]
    by simp
qed

section \<open>Properties of the domain trie\<close>

lemma remembered_wildcard_Cons:
  "remembered_wildcard (n # ns) =
     (case remembered_wildcard ns of Some r \<Rightarrow> Some r | None \<Rightarrow> wildcard_rule n)"
proof (cases "filter (\<lambda>n. wildcard_rule n \<noteq> None) ns")
  case Nil
  then show ?thesis
    by (auto simp: remembered_wildcard_def)
next
  case (Cons m ms)
  have "m # ms = filter (\<lambda>n. wildcard_rule n \<noteq> None) ns"
    using Cons by simp
  then have "last (m # ms) \<in> set (filter (\<lambda>n. wildcard_rule n \<noteq> None) ns)"
    by (metis last_in_set list.distinct(1))
  then have "wildcard_rule (last (m # ms)) \<noteq> None"
    by simp
  then show ?thesis
    using Cons by (auto simp: remembered_wildcard_def)
qed

lemma remembered_wildcard_Nil: "remembered_wildcard [] = None"
  by (simp add: remembered_wildcard_def)

lemma walked_path_nonempty: "fst (walked_path node labels) \<noteq> []"
  by (cases labels) (auto split: option.splits prod.splits)

lemma matchImpl_loop_spec:
  "matchImpl_loop node labels mw =
     (case walked_path node labels of
        (p, full) \<Rightarrow>
          if full then
            (if exact_rule (last p) \<noteq> None then exact_rule (last p)
             else if wildcard_rule (last p) \<noteq> None then wildcard_rule (last p)
             else (case remembered_wildcard (butlast p) of Some r \<Rightarrow> Some r | None \<Rightarrow> mw))
          else (case remembered_wildcard p of Some r \<Rightarrow> Some r | None \<Rightarrow> mw))"
proof (induction labels arbitrary: node mw)
  case Nil
  then show ?case
    by (simp add: remembered_wildcard_Nil)
next
  case (Cons label labels)
  show ?case
  proof (cases "map_of (children node) label")
    case None
    then show ?thesis
      by (auto simp: remembered_wildcard_Cons remembered_wildcard_Nil)
  next
    case (Some child)
    obtain p full where wp: "walked_path child labels = (p, full)"
      by (cases "walked_path child labels")
    have ne: "p \<noteq> []"
      using walked_path_nonempty [of child labels] wp by simp
    show ?thesis
      using Some wp ne Cons.IH [of child]
      by (auto simp: remembered_wildcard_Cons split: option.splits)
  qed
qed

lemma matchImpl_spec: "matchImpl node labels = match_spec node labels"
proof -
  obtain p full where wp: "walked_path node labels = (p, full)"
    by (cases "walked_path node labels")
  have "(case x of Some r \<Rightarrow> Some r | None \<Rightarrow> None) = x" for x :: "Rule option"
    by (cases x) simp_all
  then show ?thesis
    by (simp add: matchImpl_def match_spec_def matchImpl_loop_spec wp)
qed

lemma matchImpl_exact_wins:
  assumes "walked_path node labels = (p, True)" and "exact_rule (last p) = Some e"
  shows "matchImpl node labels = Some e"
  using assms by (simp add: matchImpl_def matchImpl_loop_spec)

lemma split_dot_nonempty: "split_dot d \<noteq> []"
  by (induction d) simp_all

lemma splitAndReverse_loop_split_dot:
  "splitAndReverse_loop d cur labels
     = labels @ filter (\<lambda>l. l \<noteq> []) ((cur @ hd (split_dot d)) # tl (split_dot d))"
proof (induction d arbitrary: cur labels)
  case Nil
  then show ?case by simp
next
  case (Cons c cs)
  have sd: "hd (split_dot cs) # tl (split_dot cs) = split_dot cs"
    using split_dot_nonempty [of cs] by simp
  show ?case
  proof (cases "c = CHR ''.''")
    case True
    then show ?thesis
      using Cons.IH [of "[]"] sd by simp
  next
    case False
    then show ?thesis
      using Cons.IH [of "cur @ [c]" labels] by simp
  qed
qed

lemma splitAndReverse_reversed_labels: "splitAndReverse d = reversed_labels d"
proof -
  have "hd (split_dot d) # tl (split_dot d) = split_dot d"
    using split_dot_nonempty [of d] by simp
  then show ?thesis
    using splitAndReverse_loop_split_dot [of d "[]" "[]"]
    by (simp add: splitAndReverse_def reversed_labels_def)
qed

text \<open>
  Claim C2, as amended. \<open>matchImpl\<close> computes the lookup of the specification on every node
  and label list. For every trie and every non-empty domain, \<open>match\<close> is that lookup from the
  root on the reversed labels of the lower-cased domain; on the empty string \<open>match\<close> returns
  no rule, which is the result of the lookup as long as the root holds no rule. When the walk
  consumes every label and the final node has an exact rule, that rule is the result,
  whatever wildcard rules the path holds. After \<open>*.a.com\<close> alone is inserted in the empty
  trie, \<open>b.com\<close> matches no rule.
\<close>

theorem match_precedence:
  "matchImpl node labels = match_spec node labels
   \<and> (d \<noteq> [] \<or> (exact_rule (root t) = None \<and> wildcard_rule (root t) = None) \<longrightarrow>
        match_trie t d = match_spec (root t) (reversed_labels (map tolower d)))
   \<and> match_trie t [] = None
   \<and> (walked_path node labels = (p, True) \<and> exact_rule (last p) = Some e \<longrightarrow>
        matchImpl node labels = Some e)
   \<and> match_trie (insert_trie DomainTrie_new ''*.a.com'' (Some r)) ''b.com'' = None"
proof (intro conjI impI)
  show "matchImpl node labels = match_spec node labels"
    by (rule matchImpl_spec)
next
  assume a: "d \<noteq> [] \<or> (exact_rule (root t) = None \<and> wildcard_rule (root t) = None)"
  show "match_trie t d = match_spec (root t) (reversed_labels (map tolower d))"
  proof (cases "d = []")
    case True
    with a show ?thesis
      by (simp add: match_trie_def match_spec_def reversed_labels_def remembered_wildcard_Nil)
  next
    case False
    then show ?thesis
      by (simp add: match_trie_def Let_def matchImpl_spec splitAndReverse_reversed_labels)
  qed
next
  show "match_trie t [] = None"
    by (simp add: match_trie_def)
next
  assume "walked_path node labels = (p, True) \<and> exact_rule (last p) = Some e"
  then show "matchImpl node labels = Some e"
    by (simp add: matchImpl_exact_wins)
next
  show "match_trie (insert_trie DomainTrie_new ''*.a.com'' (Some r)) ''b.com'' = None"
    by (simp add: match_trie_def insert_trie_def DomainTrie_new_def splitAndReverse_def
          tolower_def matchImpl_def Let_def)
qed

theorem match_precedence_witness:
  "''www.example.com'' \<noteq> []
   \<and> reversed_labels (map tolower ''www.example.com'') = [''com'', ''example'', ''www'']
   \<and> (walked_path (root trie_exact_and_wildcard) [''com'', ''example'']
        = (fst (walked_path (root trie_exact_and_wildcard) [''com'', ''example'']), True)
      \<and> exact_rule (last (fst (walked_path (root trie_exact_and_wildcard) [''com'', ''example''])))
          = Some rule_block)
   \<and> wildcard_rule (last (fst (walked_path (root trie_exact_and_wildcard) [''com'', ''example''])))
          = Some rule_log
   \<and> match_trie trie_exact_and_wildcard ''www.example.com''
        = match_spec (root trie_exact_and_wildcard) [''com'', ''example'', ''www'']
   \<and> match_trie trie_exact_and_wildcard ''www.example.com'' = Some rule_log
   \<and> matchImpl (root trie_exact_and_wildcard) [''com'', ''example''] = Some rule_block"
proof -
  have h1: "''www.example.com'' \<noteq> []"
    by simp
  have l: "reversed_labels (map tolower ''www.example.com'') = [''com'', ''example'', ''www'']"
    by code_simp
  have h2: "walked_path (root trie_exact_and_wildcard) [''com'', ''example'']
        = (fst (walked_path (root trie_exact_and_wildcard) [''com'', ''example'']), True)
      \<and> exact_rule (last (fst (walked_path (root trie_exact_and_wildcard) [''com'', ''example''])))
          = Some rule_block"
    by code_simp
  have h3: "wildcard_rule (last (fst (walked_path (root trie_exact_and_wildcard) [''com'', ''example''])))
          = Some rule_log"
    by code_simp
  have v: "match_spec (root trie_exact_and_wildcard) [''com'', ''example'', ''www'']
             = Some rule_log"
    by code_simp
  note inst = match_precedence [of "root trie_exact_and_wildcard" "[''com'', ''example'']"
        "''www.example.com''" trie_exact_and_wildcard
        "fst (walked_path (root trie_exact_and_wildcard) [''com'', ''example''])" rule_block]
  from inst h1 have "match_trie trie_exact_and_wildcard ''www.example.com''
        = match_spec (root trie_exact_and_wildcard)
            (reversed_labels (map tolower ''www.example.com''))"
    by blast
  then have m: "match_trie trie_exact_and_wildcard ''www.example.com''
        = match_spec (root trie_exact_and_wildcard) [''com'', ''example'', ''www'']"
    unfolding l .
  then have m': "match_trie trie_exact_and_wildcard ''www.example.com'' = Some rule_log"
    unfolding v .
  from inst h2 have e: "matchImpl (root trie_exact_and_wildcard) [''com'', ''example'']
                          = Some rule_block"
    by blast
  show ?thesis
    using h1 l h2 h3 m m' e by blast
qed

text \<open>
  Claim C2 as stated fails on the empty string: in the trie that holds an exact rule at the
  root (after \<open>.\<close> is inserted), the walk of no label ends at the root and the lookup of the
  specification gives that rule, yet \<open>match\<close> returns no rule.
\<close>

theorem match_empty_counterexample:
  "match_trie trie_root_rule [] = None
   \<and> reversed_labels (map tolower []) = []
   \<and> fst (walked_path (root trie_root_rule) []) = [root trie_root_rule]
   \<and> exact_rule (root trie_root_rule) = Some rule_block
   \<and> match_spec (root trie_root_rule) (reversed_labels (map tolower [])) = Some rule_block"
  by code_simp

lemma insert_trie_ignored:
  "insert_trie t [] rule = t" "insert_trie t d None = t"
  by (simp_all add: insert_trie_def)

text \<open>
  Claim C5, evaluated where it fails. The domain \<open>.\<close> has no label, and inserting it in the
  empty trie raises \<open>size\<close> from 0 to 1 and stores the rule as the exact rule of the root,
  where \<open>match\<close> of \<open>.\<close> finds it. Inserting \<open>*..\<close> stores the rule as the wildcard rule of the
  root, which then matches \<open>b.com\<close>.
\<close>

theorem insert_dot_not_ignored:
  "splitAndReverse (map tolower ''.'') = []
   \<and> size_trie DomainTrie_new = 0
   \<and> size_trie (insert_trie DomainTrie_new ''.'' (Some rule_block)) = 1
   \<and> match_trie DomainTrie_new ''.'' = None
   \<and> match_trie (insert_trie DomainTrie_new ''.'' (Some rule_block)) ''.'' = Some rule_block
   \<and> match_trie (insert_trie DomainTrie_new ''*..'' (Some rule_block)) ''b.com''
        = Some rule_block"
  by code_simp

subsection \<open>Case-insensitive matching\<close>

lemma tolower_ascii_upper: "tolower (ascii_upper c) = tolower c"
proof -
  have "of_char c < (256::nat)"
    by simp
  then show ?thesis
    by (auto simp: tolower_def ascii_upper_def Let_def)
qed

lemma match_trie_upper: "match_trie t (map ascii_upper d) = match_trie t d"
  by (simp add: match_trie_def tolower_ascii_upper o_def)

lemma matchImpl_loop_insertImpl:
  "matchImpl_loop (insertImpl node labels False r) labels mw = Some r"
  by (induction labels arbitrary: node mw) (simp_all add: Let_def update_conv')

lemma match_after_insert:
  assumes "domain_s \<noteq> []"
    and "\<not> (length domain_s > 2 \<and> domain_s ! 0 = CHR ''*'' \<and> domain_s ! 1 = CHR ''.'')"
    and "map tolower d = map tolower domain_s"
  shows "match_trie (insert_trie t domain_s (Some r)) d = Some r"
proof -
  have d: "d \<noteq> []"
    using assms(1,3) by auto
  have "root (insert_trie t domain_s (Some r))
          = insertImpl (root t) (splitAndReverse (map tolower domain_s)) False r"
    using assms(1,2) by (auto simp: insert_trie_def Let_def)
  then show ?thesis
    using d assms(3)
    by (simp add: match_trie_def Let_def matchImpl_def matchImpl_loop_insertImpl)
qed

lemma lower_example_com:
  "map tolower ''example.com'' = map tolower ''Example.COM''"
  "map tolower ''EXAMPLE.COM'' = map tolower ''Example.COM''"
  "map tolower ''ExAmPlE.cOm'' = map tolower ''Example.COM''"
  by code_simp+

text \<open>
  Claim C9. For every trie and every ASCII string \<open>d\<close>, \<open>match\<close> returns the same rule on \<open>d\<close>
  and on the ASCII upper-case form of \<open>d\<close>. After \<open>Example.COM\<close> is inserted with a rule in
  any trie, \<open>match\<close> returns that rule on \<open>example.com\<close>, \<open>EXAMPLE.COM\<close> and \<open>ExAmPlE.cOm\<close>.
\<close>

theorem match_case_insensitive:
  "((\<forall>c \<in> set d. of_char c < (128::nat)) \<longrightarrow>
      match_trie t d = match_trie t (map ascii_upper d))
   \<and> match_trie (insert_trie t ''Example.COM'' (Some r)) ''example.com'' = Some r
   \<and> match_trie (insert_trie t ''Example.COM'' (Some r)) ''EXAMPLE.COM'' = Some r
   \<and> match_trie (insert_trie t ''Example.COM'' (Some r)) ''ExAmPlE.cOm'' = Some r"
proof (intro conjI impI)
  show "match_trie t d = match_trie t (map ascii_upper d)"
    by (simp add: match_trie_upper)
next
  show "match_trie (insert_trie t ''Example.COM'' (Some r)) ''example.com'' = Some r"
    by (rule match_after_insert [OF _ _ lower_example_com(1)]) simp_all
next
  show "match_trie (insert_trie t ''Example.COM'' (Some r)) ''EXAMPLE.COM'' = Some r"
    by (rule match_after_insert [OF _ _ lower_example_com(2)]) simp_all
next
  show "match_trie (insert_trie t ''Example.COM'' (Some r)) ''ExAmPlE.cOm'' = Some r"
    by (rule match_after_insert [OF _ _ lower_example_com(3)]) simp_all
qed

theorem match_case_insensitive_witness:
  "list_all (\<lambda>c. of_char c < (128::nat)) ''Blocked.Example.com''
   \<and> match_trie trie_s4 ''Blocked.Example.com'' = match_trie trie_s4 ''BLOCKED.EXAMPLE.COM''
   \<and> match_trie trie_s4 ''BLOCKED.EXAMPLE.COM'' = Some rule_block"
proof -
  have h: "\<forall>c \<in> set ''Blocked.Example.com''. of_char c < (128::nat)"
    by simp
  have u: "map ascii_upper ''Blocked.Example.com'' = ''BLOCKED.EXAMPLE.COM''"
    by code_simp
  have m: "match_trie trie_s4 ''BLOCKED.EXAMPLE.COM'' = Some rule_block"
    by code_simp
  show ?thesis
    using h u m match_case_insensitive [of "''Blocked.Example.com''" trie_s4]
    by (simp add: list_all_iff)
qed

section \<open>Round trip through the A builder\<close>

lemma parseName_loop_uncompressed:
  assumes "uncompressed_name data len offset"
    and "parseName_loop data len offset oo False jc tlen outs = (Success, ne, wl)"
  shows "offset < ne \<and> ne \<le> len \<and> wl = tlen + (ne - offset)"
  using assms
proof (induction data len offset arbitrary: tlen rule: uncompressed_name.induct)
  case (1 data len offset)
  from "1.prems"(1) have lt: "offset < len"
    by (subst (asm) uncompressed_name.simps) (simp split: if_splits)
  from "1.prems"(2) have jc: "jc < MAX_LABELS"
    by (subst (asm) parseName_loop.simps) (simp split: if_splits)
  show ?case
  proof (cases "data ! offset = 0")
    case True
    with "1.prems"(2) lt jc show ?thesis
      by (subst (asm) parseName_loop.simps) (auto simp: Let_def)
  next
    case False
    from "1.prems"(1) lt False have small: "unat (data ! offset) \<le> MAX_LABEL_LENGTH"
      and fits: "offset + 1 + unat (data ! offset) \<le> len"
      and rest: "uncompressed_name data len (offset + 1 + unat (data ! offset))"
      by (subst (asm) uncompressed_name.simps; simp add: Let_def split: if_splits)+
    from "1.prems"(2) lt jc False small fits label_not_pointer [OF small]
    have step: "parseName_loop data len (offset + 1 + unat (data ! offset)) oo False jc
                  (tlen + (1 + unat (data ! offset))) outs = (Success, ne, wl)"
      by (subst (asm) parseName_loop.simps) (simp add: Let_def)
    from "1.IH" [OF _ _ _ _ _ rest step] lt False small fits
    show ?thesis
      by (auto simp: Let_def)
  qed
qed


lemma uncompressed_name_step:
  assumes "uncompressed_name data len offset"
  shows "offset < len"
    and "data ! offset \<noteq> 0 \<Longrightarrow> unat (data ! offset) \<le> MAX_LABEL_LENGTH"
    and "data ! offset \<noteq> 0 \<Longrightarrow> offset + 1 + unat (data ! offset) \<le> len"
    and "data ! offset \<noteq> 0 \<Longrightarrow> uncompressed_name data len (offset + 1 + unat (data ! offset))"
  using assms
  by (subst (asm) uncompressed_name.simps; simp add: Let_def split: if_splits)+

lemma parseName_loop_Success_jc:
  "parseName_loop data len offset oo j jc tlen outs = (Success, ne, wl) \<Longrightarrow> jc < MAX_LABELS"
  by (subst (asm) parseName_loop.simps) (simp split: if_splits)

lemma parseName_loop_transfer:
  assumes "uncompressed_name data len offset"
    and "parseName_loop data len offset oo False jc tlen outs = (Success, ne, wl)"
    and "\<forall>i. offset \<le> i \<and> i < ne \<longrightarrow> data' ! i = data ! i"
    and "ne \<le> len'"
  shows "parseName_loop data' len' offset oo False jc tlen outs = (Success, ne, wl)"
  using assms
proof (induction data len offset arbitrary: tlen rule: uncompressed_name.induct)
  case (1 data len offset)
  note un = uncompressed_name_step [OF "1.prems"(1)]
  note jc = parseName_loop_Success_jc [OF "1.prems"(2)]
  from parseName_loop_uncompressed [OF "1.prems"(1,2)]
  have bounds: "offset < ne" "ne \<le> len"
    by simp_all
  with "1.prems"(3,4) have same: "data' ! offset = data ! offset" and lt': "offset < len'"
    by simp_all
  show ?case
  proof (cases "data ! offset = 0")
    case True
    with "1.prems"(2) un(1) jc have "ne = offset + 1" "wl = tlen + 1"
      by (subst (asm) parseName_loop.simps; auto simp: Let_def)+
    with True same lt' jc show ?thesis
      by (subst parseName_loop.simps) (simp add: Let_def)
  next
    case False
    let ?next = "offset + 1 + unat (data ! offset)"
    from "1.prems"(2) have step: "parseName_loop data len ?next oo False jc
                  (tlen + (1 + unat (data ! offset))) outs = (Success, ne, wl)"
      by (simp add: parseName_loop_label_step [OF jc un(1) False un(2) [OF False] un(3) [OF False]])
    from parseName_loop_uncompressed [OF un(4) [OF False] step]
    have nb: "?next < ne"
      by simp
    from "1.prems"(3) have agree: "\<forall>i. ?next \<le> i \<and> i < ne \<longrightarrow> data' ! i = data ! i"
      by simp
    have ih: "parseName_loop data' len' ?next oo False jc
                (tlen + (1 + unat (data ! offset))) outs = (Success, ne, wl)"
      using "1.IH" [OF _ _ _ _ _ un(4) [OF False] step agree "1.prems"(4)]
        un(1) False un(2) [OF False] un(3) [OF False]
      by (simp add: Let_def)
    have fits': "offset + 1 + unat (data' ! offset) \<le> len'"
      using nb "1.prems"(4) same by simp
    show ?thesis
      using parseName_loop_label_step [OF jc lt', of data' oo False tlen outs]
        same False un(2) [OF False] fits' ih
      by simp
  qed
qed

lemma decodeName_loop_label_step:
  assumes "offset < len" and "data ! offset \<noteq> 0" and "data ! offset AND 0xC0 \<noteq> 0xC0"
  shows "decodeName_loop data len offset bp jc fl ob bs ol =
    (if jc < MAX_LABELS then
       if \<not> fl \<and> bp \<ge> bs then (BufferTooSmall, ob, ol)
       else if (if \<not> fl then bp + 1 else bp) + unat (data ! offset) > bs
         then (BufferTooSmall, (if \<not> fl then ob[bp := 0x2E] else ob), ol)
       else decodeName_loop data len (offset + 1 + unat (data ! offset))
              ((if \<not> fl then bp + 1 else bp) + unat (data ! offset)) jc False
              (fold (\<lambda>i buf. buf[(if \<not> fl then bp + 1 else bp) + i
                                   := tolower_u8 (data ! (offset + 1 + i))])
                 [0..<unat (data ! offset)] (if \<not> fl then ob[bp := 0x2E] else ob))
              bs ol
     else (PointerLoop, ob, ol))"
  using assms by (subst decodeName_loop.simps) (simp add: Let_def)

lemma decodeName_loop_transfer:
  assumes "uncompressed_name data len offset"
    and "parseName_loop data len offset oo False jc tlen outs = (Success, ne, wl)"
    and "\<forall>i. offset \<le> i \<and> i < ne \<longrightarrow> data' ! i = data ! i"
    and "ne \<le> len'"
  shows "decodeName_loop data' len' offset bp jc' fl ob bs ol
           = decodeName_loop data len offset bp jc' fl ob bs ol"
  using assms
proof (induction data len offset arbitrary: tlen bp fl ob rule: uncompressed_name.induct)
  case (1 data len offset)
  note un = uncompressed_name_step [OF "1.prems"(1)]
  note jc = parseName_loop_Success_jc [OF "1.prems"(2)]
  from parseName_loop_uncompressed [OF "1.prems"(1,2)]
  have bounds: "offset < ne" "ne \<le> len"
    by simp_all
  with "1.prems"(3,4) have same: "data' ! offset = data ! offset" and lt': "offset < len'"
    by simp_all
  show ?case
  proof (cases "data ! offset = 0")
    case True
    with same lt' un(1) show ?thesis
      by (subst decodeName_loop.simps [of data']; subst decodeName_loop.simps [of data])
         (simp add: Let_def)
  next
    case False
    let ?l = "unat (data ! offset)"
    let ?next = "offset + 1 + ?l"
    from "1.prems"(2) have step: "parseName_loop data len ?next oo False jc
                  (tlen + (1 + ?l)) outs = (Success, ne, wl)"
      by (simp add: parseName_loop_label_step [OF jc un(1) False un(2) [OF False] un(3) [OF False]])
    from parseName_loop_uncompressed [OF un(4) [OF False] step]
    have nb: "?next < ne"
      by simp
    from "1.prems"(3) have agree: "\<forall>i. ?next \<le> i \<and> i < ne \<longrightarrow> data' ! i = data ! i"
      by simp
    have ih: "decodeName_loop data' len' ?next bp' jc' fl' ob' bs ol
                = decodeName_loop data len ?next bp' jc' fl' ob' bs ol" for bp' fl' ob'
      using "1.IH" [OF _ _ _ _ _ un(4) [OF False] step agree "1.prems"(4)]
        un(1) False un(2) [OF False] un(3) [OF False]
      by (simp add: Let_def)
    have copy: "fold (\<lambda>i buf. buf[b + i := tolower_u8 (data' ! (offset + 1 + i))]) [0..<?l] ob'
                = fold (\<lambda>i buf. buf[b + i := tolower_u8 (data ! (offset + 1 + i))]) [0..<?l] ob'"
      for b ob'
    proof (rule fold_cong)
      fix i assume "i \<in> set [0..<?l]"
      then have "offset \<le> offset + 1 + i \<and> offset + 1 + i < ne"
        using nb by simp
      with "1.prems"(3) have "data' ! (offset + 1 + i) = data ! (offset + 1 + i)"
        by blast
      then show "(\<lambda>buf. buf[b + i := tolower_u8 (data' ! (offset + 1 + i))])
                 = (\<lambda>buf. buf[b + i := tolower_u8 (data ! (offset + 1 + i))])"
        by simp
    qed simp_all
    let ?rhs = "\<lambda>(d :: u8 list) n.
      (if jc' < MAX_LABELS then
         if \<not> fl \<and> bp \<ge> bs then (BufferTooSmall, ob, ol)
         else if (if \<not> fl then bp + 1 else bp) + unat (data ! offset) > bs
           then (BufferTooSmall, (if \<not> fl then ob[bp := 0x2E] else ob), ol)
         else decodeName_loop d n (offset + 1 + unat (data ! offset))
                ((if \<not> fl then bp + 1 else bp) + unat (data ! offset)) jc' False
                (fold (\<lambda>i buf. buf[(if \<not> fl then bp + 1 else bp) + i
                                     := tolower_u8 (d ! (offset + 1 + i))])
                   [0..<unat (data ! offset)] (if \<not> fl then ob[bp := 0x2E] else ob))
                bs ol
       else (PointerLoop, ob, ol))"
    have np: "data ! offset AND 0xC0 \<noteq> 0xC0"
      by (rule label_not_pointer [OF un(2) [OF False]])
    have False': "data' ! offset \<noteq> 0" and np': "data' ! offset AND 0xC0 \<noteq> 0xC0"
      using False np by (simp_all add: same)
    have L: "decodeName_loop data' len' offset bp jc' fl ob bs ol = ?rhs data' len'"
      using decodeName_loop_label_step [OF lt' False' np', of bp jc' fl ob bs ol]
      by (simp only: same)
    have M: "?rhs data' len' = ?rhs data len"
      by (simp only: copy ih)
    have R: "decodeName_loop data len offset bp jc' fl ob bs ol = ?rhs data len"
      by (rule decodeName_loop_label_step [OF un(1) False np])
    show ?thesis
      by (simp only: L M R)
  qed
qed


lemma parse_SuccessD:
  assumes "parse (Some data) len (Some r) = (Success, Some p)"
  shows "\<exists>ne wl. MIN_DNS_QUERY_SIZE \<le> len \<and> getQDCount (header_at data) \<noteq> 0
           \<and> parseName data len 12 (0, 0) = (Success, ne, wl) \<and> ne + 4 \<le> len
           \<and> total_consumed p = ne + 4
           \<and> qtype (question p) = ntohs (load16 data ne)
           \<and> qclass (question p) = ntohs (load16 data (ne + 2))
           \<and> name_offset (question p) = 12
           \<and> name_wire_len (question p) = wl"
  using assms
  by (auto simp: Let_def DNS_HEADER_SIZE_def split: if_splits prod.splits)

lemma parse_SuccessI:
  assumes "MIN_DNS_QUERY_SIZE \<le> len" and "getQDCount (header_at data) \<noteq> 0"
    and "parseName data len 12 (0, 0) = (Success, ne, wl)" and "ne + 4 \<le> len"
  shows "\<exists>p. parse (Some data) len (Some r) = (Success, Some p)
           \<and> total_consumed p = ne + 4
           \<and> qtype (question p) = ntohs (load16 data ne)
           \<and> qclass (question p) = ntohs (load16 data (ne + 2))
           \<and> name_offset (question p) = 12"
  using assms by (simp add: Let_def DNS_HEADER_SIZE_def)

text \<open>
  Claim C8, as amended. For every query that \<open>parse\<close> accepts and whose name contains no
  compression pointer, and for every address and TTL, \<open>parse\<close> accepts the output of
  \<open>buildAResponse\<close> (built in a buffer that is large enough) and yields the same \<open>qtype\<close> and
  \<open>qclass\<close>, and \<open>decodeName\<close> gives the same result on the response as on the query.
\<close>

theorem a_response_roundtrip:
  assumes "parse (Some query) len (Some result) = (Success, Some parsed)"
    and "uncompressed_name query len 12"
    and "len \<le> length query"
    and "total_consumed parsed + 16 \<le> response_buf_size"
    and "buildAResponse query len parsed ip ttl_v response response_buf_size = (n, resp)"
  shows "\<exists>parsed'. parse (Some resp) n (Some result') = (Success, Some parsed')
           \<and> qtype (question parsed') = qtype (question parsed)
           \<and> qclass (question parsed') = qclass (question parsed)
           \<and> decodeName resp n (name_offset (question parsed')) out_buf buf_size out_len
               = decodeName query len (name_offset (question parsed)) out_buf buf_size out_len"
proof -
  from parse_SuccessD [OF assms(1)] obtain ne wl where
    len: "MIN_DNS_QUERY_SIZE \<le> len" and qd: "getQDCount (header_at query) \<noteq> 0"
    and pn: "parseName query len 12 (0, 0) = (Success, ne, wl)" and ne: "ne + 4 \<le> len"
    and tc: "total_consumed parsed = ne + 4"
    and qt: "qtype (question parsed) = ntohs (load16 query ne)"
    and qc: "qclass (question parsed) = ntohs (load16 query (ne + 2))"
    and no: "name_offset (question parsed) = 12"
    by blast
  from pn have pl: "parseName_loop query len 12 12 False 0 0 (0, 0) = (Success, ne, wl)"
    by (simp add: parseName_def)
  from parseName_loop_uncompressed [OF assms(2) pl] have ne12: "12 < ne"
    by simp
  have n: "n = total_consumed parsed + 16"
    using buildAResponse_len [OF assms(4), of query len ip ttl_v response] assms(5) by simp
  have nth: "resp ! i = query ! i" if "i < ne + 4" and "i \<notin> {2, 3, 6, 7}" for i
    using buildAResponse_nth [OF assms(4), of query i len ip ttl_v response]
      that assms(3,5) ne tc by simp
  have agree: "\<forall>i. 12 \<le> i \<and> i < ne \<longrightarrow> resp ! i = query ! i"
    using nth by simp
  have nele: "ne \<le> n"
    using n tc by simp
  have pl': "parseName_loop resp n 12 12 False 0 0 (0, 0) = (Success, ne, wl)"
    by (rule parseName_loop_transfer [OF assms(2) pl agree nele])
  have qd': "getQDCount (header_at resp) \<noteq> 0"
    using qd nth [of 4] nth [of 5] ne12 by (simp add: getQDCount_def header_at_def load16_def)
  have l1: "load16 resp ne = load16 query ne"
    using nth [of ne] nth [of "ne + 1"] ne12 by (simp add: load16_def)
  have l2: "load16 resp (ne + 2) = load16 query (ne + 2)"
    using nth [of "ne + 2"] nth [of "ne + 2 + 1"] ne12 by (simp add: load16_def)
  have "MIN_DNS_QUERY_SIZE \<le> n" "ne + 4 \<le> n"
    using ne12 n tc by (simp_all add: MIN_DNS_QUERY_SIZE_def DNS_HEADER_SIZE_def)
  from parse_SuccessI [OF this(1) qd' _ this(2), of wl result'] pl'
  obtain parsed' where p': "parse (Some resp) n (Some result') = (Success, Some parsed')"
    and qt': "qtype (question parsed') = ntohs (load16 resp ne)"
    and qc': "qclass (question parsed') = ntohs (load16 resp (ne + 2))"
    and no': "name_offset (question parsed') = 12"
    by (auto simp: parseName_def)
  have dec: "decodeName resp n 12 out_buf buf_size out_len
               = decodeName query len 12 out_buf buf_size out_len"
    unfolding decodeName_def
    by (rule decodeName_loop_transfer [OF assms(2) pl agree nele])
  show ?thesis
    using p' qt' qc' no' qt qc no l1 l2 dec by simp
qed

theorem a_response_roundtrip_witness:
  "parse (Some pkt_simple_query) 33 (Some result0) = (Success, Some parsed_simple)
   \<and> uncompressed_name pkt_simple_query 33 12
   \<and> 33 \<le> length pkt_simple_query
   \<and> total_consumed parsed_simple + 16 \<le> 512
   \<and> (\<exists>parsed'. parse (Some (snd (buildAResponse pkt_simple_query 33 parsed_simple
                                       0x6401A8C0 300 response0 512))) 49 (Some result0)
                    = (Success, Some parsed')
           \<and> qtype (question parsed') = 1
           \<and> qclass (question parsed') = 1
           \<and> decodeName (snd (buildAResponse pkt_simple_query 33 parsed_simple
                                 0x6401A8C0 300 response0 512)) 49
                 (name_offset (question parsed')) out_buf0 256 0
               = decodeName pkt_simple_query 33 12 out_buf0 256 0)"
proof -
  have h1: "parse (Some pkt_simple_query) 33 (Some result0) = (Success, Some parsed_simple)"
    by code_simp
  have h2: "uncompressed_name pkt_simple_query 33 12"
    by code_simp
  have h3: "33 \<le> length pkt_simple_query"
    by code_simp
  have h4: "total_consumed parsed_simple + 16 \<le> 512"
    by code_simp
  have h5: "buildAResponse pkt_simple_query 33 parsed_simple 0x6401A8C0 300 response0 512
              = (49, snd (buildAResponse pkt_simple_query 33 parsed_simple
                            0x6401A8C0 300 response0 512))"
    by code_simp
  have v: "qtype (question parsed_simple) = 1" "qclass (question parsed_simple) = 1"
    "name_offset (question parsed_simple) = 12"
    by code_simp+
  from a_response_roundtrip [OF h1 h2 h3 h4 h5, of result0 out_buf0 256 0]
  show ?thesis
    using h1 h2 h3 h4 v by simp
qed

text \<open>
  Claim C8 as stated fails. \<open>parse\<close> accepts \<open>pkt_compressed_qname\<close>, whose name continues at
  offset 22, after the question. \<open>buildAResponse\<close> copies the 22 bytes of the question and
  writes the answer, which starts with the pointer \<open>C0 0C\<close>, at offset 22: in the response
  the name runs in a circle and \<open>parse\<close> returns \<open>PointerLoop\<close>.
\<close>

theorem a_response_roundtrip_counterexample:
  "fst (parse (Some pkt_compressed_qname) 27 (Some result0)) = Success
   \<and> fst (buildAResponse pkt_compressed_qname 27
            (the (snd (parse (Some pkt_compressed_qname) 27 (Some result0))))
            0x6401A8C0 300 response0 512) = 38
   \<and> fst (parse (Some (snd (buildAResponse pkt_compressed_qname 27
                              (the (snd (parse (Some pkt_compressed_qname) 27 (Some result0))))
                              0x6401A8C0 300 response0 512))) 38 (Some result0))
       = PointerLoop"
  by code_simp

end
